theory Spec2Isabelle
  imports Complex_Main "HOL-Library.Log_Nat"
begin

section \<open>JavaScript numbers\<close>

text \<open>
  A JavaScript number is an IEEE 754 binary64 value.  The finite ones are carried as the
  rational they denote; the two zeros are not told apart (the program only compares
  with \<open>0\<close>, tests truthiness and adds, and both zeros behave alike there).
\<close>

datatype jsnum = NaN | PosInf | NegInf | Fin rat

text \<open>\<open>ilog2 a\<close> is the binary exponent of a positive rational: \<open>2^e \<le> a < 2^(e+1)\<close>.\<close>

definition ilog2 :: "rat \<Rightarrow> int" where
  "ilog2 a = (case quotient_of a of (n, d) \<Rightarrow>
     let k = bitlen n - bitlen d
     in if 2 powi k \<le> a then k else k - 1)"

text \<open>Rounding to the nearest integer, ties to the even one.\<close>

definition round_half_even :: "rat \<Rightarrow> int" where
  "round_half_even x =
     (let f = \<lfloor>x\<rfloor>; r = x - of_int f
      in if r < 1 / 2 then f
         else if 1 / 2 < r then f + 1
         else if even f then f else f + 1)"

text \<open>
  The binary64 value of a rational: 53 significant bits, exponents from \<open>-1022\<close>
  (subnormals below), round to nearest with ties to even, overflow to an infinity.
\<close>

definition round64 :: "rat \<Rightarrow> jsnum" where
  "round64 q =
     (if q = 0 then Fin 0
      else
        let a = \<bar>q\<bar>;
            e = max (ilog2 a) (- 1022);
            u = 2 powi (e - 52);
            r = of_int (round_half_even (a / u)) * u
        in if of_int (2 ^ 1024) \<le> r then (if 0 < q then PosInf else NegInf)
           else Fin (if 0 < q then r else - r))"

text \<open>The \<open>+\<close> of two numbers.\<close>

fun jsadd :: "jsnum \<Rightarrow> jsnum \<Rightarrow> jsnum" where
  "jsadd NaN _ = NaN"
| "jsadd _ NaN = NaN"
| "jsadd PosInf NegInf = NaN"
| "jsadd NegInf PosInf = NaN"
| "jsadd PosInf _ = PosInf"
| "jsadd _ PosInf = PosInf"
| "jsadd NegInf _ = NegInf"
| "jsadd _ NegInf = NegInf"
| "jsadd (Fin a) (Fin b) = round64 (a + b)"

text \<open>\<open>isNaN(x)\<close> and \<open>x <= 0\<close> on a number.\<close>

fun isNaN :: "jsnum \<Rightarrow> bool" where
  "isNaN NaN = True"
| "isNaN _ = False"

fun le_zero :: "jsnum \<Rightarrow> bool" where
  "le_zero NaN = False"
| "le_zero PosInf = False"
| "le_zero NegInf = True"
| "le_zero (Fin q) = (q \<le> 0)"

text \<open>A number is falsy when it is \<open>NaN\<close> or a zero.\<close>

fun falsy_num :: "jsnum \<Rightarrow> bool" where
  "falsy_num NaN = True"
| "falsy_num (Fin q) = (q = 0)"
| "falsy_num _ = False"

section \<open>Strings\<close>

text \<open>
  A string is a list of code units; a \<open>char\<close> has eight bits, so the model covers
  the strings whose code units are below \<open>0x100\<close>.  Of the white space and line
  terminators that \<open>trim\<close> and \<open>parseFloat\<close> strip, these seven are in range.
\<close>

definition is_ws :: "char \<Rightarrow> bool" where
  "is_ws c = (c \<in> set [CHR 0x09, CHR 0x0A, CHR 0x0B, CHR 0x0C, CHR 0x0D, CHR 0x20, CHR 0xA0])"

definition trim :: "string \<Rightarrow> string" where
  "trim s = rev (dropWhile is_ws (rev (dropWhile is_ws s)))"

definition is_digit :: "char \<Rightarrow> bool" where
  "is_digit c = (c \<in> set ''0123456789'')"

definition digit_val :: "char \<Rightarrow> int" where
  "digit_val c = int (of_char c) - 48"

definition digits_val :: "string \<Rightarrow> int" where
  "digits_val ds = foldl (\<lambda>acc c. 10 * acc + digit_val c) 0 ds"

text \<open>An optional sign in front of a string: whether it is a minus, and the rest.\<close>

fun sign_of :: "string \<Rightarrow> bool \<times> string" where
  "sign_of [] = (False, [])"
| "sign_of (c # r) =
     (if c = CHR ''-'' then (True, r) else if c = CHR ''+'' then (False, r) else (False, c # r))"

text \<open>The exponent part \<open>e[+-]digits\<close> at the head of a string, \<open>0\<close> when there is none.\<close>

fun exponent_of :: "string \<Rightarrow> int" where
  "exponent_of [] = 0"
| "exponent_of (c # r) =
     (if c = CHR ''e'' \<or> c = CHR ''E'' then
        (case sign_of r of (neg, r') \<Rightarrow>
           let ds = takeWhile is_digit r'
           in if ds = [] then 0 else if neg then - digits_val ds else digits_val ds)
      else 0)"

text \<open>
  \<open>parseFloat\<close>: leading white space is skipped, the longest prefix that is a decimal
  literal (or a signed \<open>Infinity\<close>) is read and the rest ignored; with no such prefix the
  result is \<open>NaN\<close>.
\<close>

definition parseFloat :: "string \<Rightarrow> jsnum" where
  "parseFloat s =
     (case sign_of (dropWhile is_ws s) of (neg, u) \<Rightarrow>
        if take 8 u = ''Infinity'' then (if neg then NegInf else PosInf)
        else
          let ip = takeWhile is_digit u;
              r1 = dropWhile is_digit u;
              fp = (case r1 of [] \<Rightarrow> [] | c # r \<Rightarrow> if c = CHR ''.'' then takeWhile is_digit r else []);
              r2 = (case r1 of [] \<Rightarrow> [] | c # r \<Rightarrow> if c = CHR ''.'' then dropWhile is_digit r else r1)
          in if ip = [] \<and> fp = [] then NaN
             else
               let m = of_int (digits_val (ip @ fp)) * 10 powi (exponent_of r2 - int (length fp))
               in round64 (if neg then - m else m))"

section \<open>The expenses table\<close>

text \<open>
  A row of \<open>expenses (id INTEGER PRIMARY KEY AUTOINCREMENT, amount REAL NOT NULL,
  category TEXT NOT NULL, note TEXT)\<close>, as the row object the screen reads
  (\<open>exp.amount\<close>, \<open>exp.category\<close>, \<open>item.note\<close>, \<open>item.id\<close>); \<open>None\<close> is \<open>null\<close>.
\<close>

record expense =
  exp_id :: int
  exp_amount :: jsnum
  exp_category :: "string option"
  exp_note :: "string option"

text \<open>
  The table holds its rows and, for \<open>AUTOINCREMENT\<close>, the largest row id it has
  ever given out (the \<open>sqlite_sequence\<close> entry).  The database holds the table once
  it has been created.
\<close>

record table =
  rows :: "expense list"
  seq :: int

type_synonym database = "table option"

datatype error = NoSuchTable | DatabaseFull

definition max_rowid :: int where
  "max_rowid = 9223372036854775807"

text \<open>\<open>CREATE TABLE IF NOT EXISTS expenses (...)\<close>\<close>

fun create_table_if_not_exists :: "database \<Rightarrow> database" where
  "create_table_if_not_exists None = Some \<lparr>rows = [], seq = 0\<rparr>"
| "create_table_if_not_exists (Some t) = Some t"

text \<open>\<open>SELECT * FROM expenses ORDER BY id DESC\<close>\<close>

fun select_order_by_id_desc :: "database \<Rightarrow> error + expense list" where
  "select_order_by_id_desc None = Inl NoSuchTable"
| "select_order_by_id_desc (Some t) = Inr (rev (sort_key exp_id (rows t)))"

text \<open>
  The largest row id the table has ever held, and
  \<open>INSERT INTO expenses (amount, category, note) VALUES (?, ?, ?)\<close>: the new row takes
  the next id after it, and the insert fails once the largest possible id was used.
\<close>

definition last_rowid :: "table \<Rightarrow> int" where
  "last_rowid t = fold max (map exp_id (rows t)) (seq t)"

fun insert_expense :: "jsnum \<Rightarrow> string \<Rightarrow> string option \<Rightarrow> database \<Rightarrow> error + database" where
  "insert_expense a c n None = Inl NoSuchTable"
| "insert_expense a c n (Some t) =
     (if max_rowid \<le> last_rowid t then Inl DatabaseFull
      else Inr (Some \<lparr>rows = rows t @
                   [\<lparr>exp_id = last_rowid t + 1, exp_amount = a,
                     exp_category = Some c, exp_note = n\<rparr>],
                 seq = last_rowid t + 1\<rparr>))"

text \<open>\<open>DELETE FROM expenses WHERE id = ?\<close>\<close>

fun delete_where_id :: "int \<Rightarrow> database \<Rightarrow> error + database" where
  "delete_where_id i None = Inl NoSuchTable"
| "delete_where_id i (Some t) = Inr (Some (t\<lparr>rows := filter (\<lambda>r. exp_id r \<noteq> i) (rows t)\<rparr>))"

section \<open>The screen\<close>

text \<open>
  The state of \<open>ExpenseScreen\<close>: the database behind \<open>db\<close> and the four
  \<open>useState\<close> cells (\<open>note_field\<close> is the cell \<open>note\<close>).
\<close>

record screen =
  db :: database
  expenses :: "expense list"
  amount :: string
  category :: string
  note_field :: string

definition loadExpenses :: "screen \<Rightarrow> error + screen" where
  "loadExpenses s =
     (case select_order_by_id_desc (db s) of
        Inl e \<Rightarrow> Inl e
      | Inr rs \<Rightarrow> Inr (s\<lparr>expenses := rs\<rparr>))"

definition addExpense :: "screen \<Rightarrow> error + screen" where
  "addExpense s =
     (let amountNumber = parseFloat (amount s)
      in if isNaN amountNumber \<or> le_zero amountNumber then Inr s
         else
           let trimmedCategory = trim (category s);
               trimmedNote = trim (note_field s)
           in if trimmedCategory = [] then Inr s
              else
                (case insert_expense amountNumber trimmedCategory
                        (if trimmedNote = [] then None else Some trimmedNote) (db s) of
                   Inl e \<Rightarrow> Inl e
                 | Inr d \<Rightarrow>
                     loadExpenses (s\<lparr>db := d, amount := [], category := [], note_field := []\<rparr>)))"

definition deleteExpense :: "int \<Rightarrow> screen \<Rightarrow> error + screen" where
  "deleteExpense i s =
     (case delete_where_id i (db s) of
        Inl e \<Rightarrow> Inl e
      | Inr d \<Rightarrow> loadExpenses (s\<lparr>db := d\<rparr>))"

text \<open>The function \<open>setup\<close> that the mount effect runs.\<close>

definition setup_effect :: "screen \<Rightarrow> error + screen" where
  "setup_effect s = loadExpenses (s\<lparr>db := create_table_if_not_exists (db s)\<rparr>)"

section \<open>Events\<close>

text \<open>
  What the user can do to the screen: type into one of the three inputs
  (\<open>onChangeText\<close>), press the add button, press the delete mark of an item, and
  mount the screen, which runs the effect.
\<close>

datatype action =
  ChangeAmount string
  | ChangeCategory string
  | ChangeNote string
  | PressAdd
  | PressDelete int
  | Mount

fun step :: "action \<Rightarrow> screen \<Rightarrow> error + screen" where
  "step (ChangeAmount v) s = Inr (s\<lparr>amount := v\<rparr>)"
| "step (ChangeCategory v) s = Inr (s\<lparr>category := v\<rparr>)"
| "step (ChangeNote v) s = Inr (s\<lparr>note_field := v\<rparr>)"
| "step PressAdd s = addExpense s"
| "step (PressDelete i) s = deleteExpense i s"
| "step Mount s = setup_effect s"

text \<open>A run of events stops at the first one that fails.\<close>

fun run :: "action list \<Rightarrow> screen \<Rightarrow> error + screen" where
  "run [] s = Inr s"
| "run (a # as) s = (case step a s of Inl e \<Rightarrow> Inl e | Inr s' \<Rightarrow> run as s')"

text \<open>
  The ids of the rows that a run inserts, in the order of insertion: after each
  event, the rows of the table that were not there before it.
\<close>

definition rows_of :: "database \<Rightarrow> expense list" where
  "rows_of d = (case d of None \<Rightarrow> [] | Some t \<Rightarrow> rows t)"

definition inserted :: "screen \<Rightarrow> screen \<Rightarrow> expense list" where
  "inserted s s' = filter (\<lambda>r. r \<notin> set (rows_of (db s))) (rows_of (db s'))"

fun added_ids :: "action list \<Rightarrow> screen \<Rightarrow> int list" where
  "added_ids [] s = []"
| "added_ids (a # as) s =
     (case step a s of
        Inl e \<Rightarrow> []
      | Inr s' \<Rightarrow> map exp_id (inserted s s') @ added_ids as s')"

section \<open>Invariants of the table\<close>

text \<open>
  \<open>id\<close> is the primary key, so no two rows share one, and the sequence entry is at
  least every id in the table.
\<close>

definition wf_db :: "database \<Rightarrow> bool" where
  "wf_db d =
     (case d of
        None \<Rightarrow> True
      | Some t \<Rightarrow> distinct (map exp_id (rows t)) \<and> list_all (\<lambda>r. exp_id r \<le> seq t) (rows t))"

text \<open>The sequence entry of the database, \<open>0\<close> while there is no table.\<close>

definition seq_of :: "database \<Rightarrow> int" where
  "seq_of d = (case d of None \<Rightarrow> 0 | Some t \<Rightarrow> seq t)"

text \<open>No stored note is the empty string.\<close>

definition notes_ok :: "database \<Rightarrow> bool" where
  "notes_ok d = list_all (\<lambda>r. exp_note r \<noteq> Some []) (rows_of d)"

section \<open>Category totals\<close>

text \<open>
  \<open>getCategoryTotals\<close> collects the totals in a plain object, \<open>const totals = {}\<close>.
  A property of it holds a number, or, once a function or an object has been added to a
  number, text: the source text of the function and the decimal forms of the amounts,
  whose characters depend on the engine; of such text only that it is a (non-empty)
  string is kept.  Reading a property gives \<open>undefined\<close>, a stored value, or a function or
  object inherited from \<open>Object.prototype\<close>.
\<close>

datatype jsval = Undefined | Num jsnum | Str | Obj

text \<open>The names a plain object inherits from \<open>Object.prototype\<close>.\<close>

definition object_prototype_names :: "string list" where
  "object_prototype_names =
     [''constructor'', ''__defineGetter__'', ''__defineSetter__'', ''hasOwnProperty'',
      ''__lookupGetter__'', ''__lookupSetter__'', ''isPrototypeOf'', ''propertyIsEnumerable'',
      ''toString'', ''valueOf'', ''__proto__'', ''toLocaleString'']"

text \<open>
  The own properties of \<open>totals\<close>, in the order of their creation.  \<open>totals[k]\<close> reads the
  own property, else the inherited one.  \<open>totals[k] = v\<close> with a number or text \<open>v\<close>
  writes the own property, creating it last when it is new; for \<open>__proto__\<close> the
  assignment goes to the inherited setter, which ignores a value that is neither an
  object nor \<open>null\<close>.
\<close>

type_synonym jsobject = "(string \<times> jsval) list"

definition get_prop :: "jsobject \<Rightarrow> string \<Rightarrow> jsval" where
  "get_prop obj k =
     (case map_of obj k of
        Some v \<Rightarrow> v
      | None \<Rightarrow> if k \<in> set object_prototype_names then Obj else Undefined)"

definition replace_value :: "string \<Rightarrow> jsval \<Rightarrow> jsobject \<Rightarrow> jsobject" where
  "replace_value k v obj = map (\<lambda>p. if fst p = k then (k, v) else p) obj"

definition set_prop :: "jsobject \<Rightarrow> string \<Rightarrow> jsval \<Rightarrow> jsobject" where
  "set_prop obj k v =
     (if k = ''__proto__'' then obj
      else if k \<in> set (map fst obj) then replace_value k v obj
      else obj @ [(k, v)])"

fun truthy :: "jsval \<Rightarrow> bool" where
  "truthy Undefined = False"
| "truthy (Num n) = (\<not> falsy_num n)"
| "truthy Str = True"
| "truthy Obj = True"

text \<open>\<open>v + a\<close> for a number \<open>a\<close>: numbers add, anything else is turned into text.\<close>

fun js_plus :: "jsval \<Rightarrow> jsnum \<Rightarrow> jsval" where
  "js_plus Undefined a = Num NaN"
| "js_plus (Num n) a = Num (jsadd n a)"
| "js_plus Str a = Str"
| "js_plus Obj a = Str"

text \<open>\<open>exp.category || "Other"\<close> and \<open>exp.amount || 0\<close>\<close>

definition category_or_other :: "expense \<Rightarrow> string" where
  "category_or_other e =
     (case exp_category e of None \<Rightarrow> ''Other'' | Some c \<Rightarrow> if c = [] then ''Other'' else c)"

definition amount_or_zero :: "expense \<Rightarrow> jsnum" where
  "amount_or_zero e = (if falsy_num (exp_amount e) then Fin 0 else exp_amount e)"

text \<open>The body of the \<open>forEach\<close>, for the record \<open>e\<close> (\<open>exp\<close> in the source).\<close>

definition add_to_totals :: "jsobject \<Rightarrow> expense \<Rightarrow> jsobject" where
  "add_to_totals totals e =
     (let category = category_or_other e;
          amount = amount_or_zero e;
          totals1 = (if \<not> truthy (get_prop totals category)
                     then set_prop totals category (Num (Fin 0)) else totals)
      in set_prop totals1 category (js_plus (get_prop totals1 category) amount))"

text \<open>
  \<open>Object.entries\<close> lists the own properties whose names are array indices (the decimal
  form, without leading zeros, of an integer from \<open>0\<close> to \<open>2^32 - 2\<close>) first, in ascending
  numeric order, and then the others in the order of their creation.
\<close>

definition is_array_index :: "string \<Rightarrow> bool" where
  "is_array_index k =
     (k \<noteq> [] \<and> list_all is_digit k \<and> (hd k \<noteq> CHR ''0'' \<or> k = ''0'') \<and>
      digits_val k < 4294967295)"

definition object_entries :: "jsobject \<Rightarrow> (string \<times> jsval) list" where
  "object_entries obj =
     sort_key (\<lambda>p. digits_val (fst p)) (filter (\<lambda>p. is_array_index (fst p)) obj) @
     filter (\<lambda>p. \<not> is_array_index (fst p)) obj"

text \<open>The entries of the chart.\<close>

record pie_slice =
  slice_name :: string
  slice_amount :: jsval
  slice_color :: string
  legendFontColor :: string
  legendFontSize :: int

definition pieChartColors :: "string list" where
  "pieChartColors =
     [''#FF6B6B'', ''#4ECDC4'', ''#45B7D1'', ''#FFA07A'', ''#98D8C8'', ''#F7DC6F'',
      ''#BB8FCE'', ''#85C1E2'']"

definition darkText :: string where
  "darkText = ''#1B0000''"

definition getCategoryTotals :: "screen \<Rightarrow> pie_slice list" where
  "getCategoryTotals s =
     (let totals = foldl add_to_totals [] (expenses s)
      in map (\<lambda>(index, (category, total)).
                \<lparr>slice_name = category, slice_amount = total,
                 slice_color = pieChartColors ! (index mod length pieChartColors),
                 legendFontColor = darkText, legendFontSize = 14\<rparr>)
           (enumerate 0 (object_entries totals)))"

section \<open>What the totals are compared with\<close>

text \<open>
  The labels of a sequence in first-seen order; the amounts of the records under a
  label, in sequence order; the numbers that are an amount of the ledger (not negative,
  possibly infinite); and the value of a finite number (\<open>0\<close> for the others).
\<close>

definition first_seen :: "'a list \<Rightarrow> 'a list" where
  "first_seen xs = rev (remdups (rev xs))"

definition group_amounts :: "string \<Rightarrow> expense list \<Rightarrow> jsnum list" where
  "group_amounts c es = map exp_amount (filter (\<lambda>r. category_or_other r = c) es)"

fun nonneg_num :: "jsnum \<Rightarrow> bool" where
  "nonneg_num (Fin q) = (0 \<le> q)"
| "nonneg_num PosInf = True"
| "nonneg_num _ = False"

fun num_value :: "jsnum \<Rightarrow> rat" where
  "num_value (Fin q) = q"
| "num_value _ = 0"

text \<open>The number that a total is, \<open>NaN\<close> when it is not a number, and its value.\<close>

fun number_of :: "jsval \<Rightarrow> jsnum" where
  "number_of (Num n) = n"
| "number_of _ = NaN"

definition finite_value :: "jsval \<Rightarrow> rat" where
  "finite_value v = num_value (number_of v)"

text \<open>The amounts that are whole numbers, not negative.\<close>

fun whole_nonneg :: "jsnum \<Rightarrow> bool" where
  "whole_nonneg (Fin q) = (0 \<le> q \<and> q = of_int \<lfloor>q\<rfloor>)"
| "whole_nonneg _ = False"

text \<open>
  The total of a label is computed without rounding: adding the amounts under the label
  one after the other, by the addition of numbers, gives their exact sum.
\<close>

definition group_total_exact :: "expense list \<Rightarrow> string \<Rightarrow> bool" where
  "group_total_exact es c =
     (foldl jsadd (Fin 0) (group_amounts c es) = Fin (sum_list (map num_value (group_amounts c es))))"


section \<open>Facts about the table and the events\<close>

lemma insort_key_snoc:
  "f y \<le> f x \<Longrightarrow> insort_key f y (zs @ [x]) = insort_key f y zs @ [x]"
  by (induction zs) auto

lemma sort_key_snoc_max:
  "\<forall>y\<in>set xs. f y \<le> f x \<Longrightarrow> sort_key f (xs @ [x]) = sort_key f xs @ [x]"
proof (induction xs)
  case Nil
  then show ?case by simp
next
  case (Cons a xs)
  then show ?case by (simp add: insort_key_snoc)
qed

lemma fold_max_ge: "(m::int) \<le> fold max xs m"
  by (induction xs arbitrary: m) (auto intro: order_trans[OF max.cobounded2])

lemma fold_max_mem: "x \<in> set xs \<Longrightarrow> (x::int) \<le> fold max xs m"
proof (induction xs arbitrary: m)
  case Nil
  then show ?case by simp
next
  case (Cons a xs)
  then show ?case
    using fold_max_ge[of "max a m" xs] by auto
qed

lemma fold_max_bounded: "\<forall>x\<in>set xs. x \<le> m \<Longrightarrow> fold max xs (m::int) = m"
  by (induction xs) (auto simp: max_def)

lemma last_rowid_ge_seq: "seq t \<le> last_rowid t"
  by (simp add: last_rowid_def fold_max_ge)

lemma last_rowid_ge_id: "r \<in> set (rows t) \<Longrightarrow> exp_id r \<le> last_rowid t"
  by (simp add: last_rowid_def fold_max_mem)

lemma last_rowid_wf: "wf_db (Some t) \<Longrightarrow> last_rowid t = seq t"
  by (simp add: wf_db_def last_rowid_def fold_max_bounded list_all_iff)

lemma desc_strict:
  fixes f :: "'a \<Rightarrow> int"
  assumes "distinct (map f xs)"
  shows "sorted_wrt (>) (map f (rev (sort_key f xs)))"
proof -
  have "distinct (map f (sort_key f xs))"
    using assms by (simp add: distinct_map)
  moreover have "sorted (map f (sort_key f xs))"
    by simp
  ultimately have "sorted_wrt (<) (map f (sort_key f xs))"
    by (simp add: strict_sorted_iff)
  then show ?thesis
    by (simp add: rev_map[symmetric] sorted_wrt_rev)
qed

lemma select_some: "select_order_by_id_desc (Some t) = Inr (rev (sort_key exp_id (rows t)))"
  by simp

lemma loadExpenses_Some:
  "db s = Some t \<Longrightarrow> loadExpenses s = Inr (s\<lparr>expenses := rev (sort_key exp_id (rows t))\<rparr>)"
  by (simp add: loadExpenses_def)

lemma loadExpenses_None: "db s = None \<Longrightarrow> loadExpenses s = Inl NoSuchTable"
  by (simp add: loadExpenses_def)

lemma addExpense_rejected:
  "isNaN (parseFloat (amount s)) \<or> le_zero (parseFloat (amount s)) \<or> trim (category s) = []
   \<Longrightarrow> addExpense s = Inr s"
  by (auto simp: addExpense_def Let_def)

lemma addExpense_accepted:
  assumes "\<not> isNaN (parseFloat (amount s))" "\<not> le_zero (parseFloat (amount s))"
    and "trim (category s) \<noteq> []" "db s = Some t" "last_rowid t < max_rowid"
  shows "addExpense s =
    Inr (s\<lparr>db := Some \<lparr>rows = rows t @
                   [\<lparr>exp_id = last_rowid t + 1, exp_amount = parseFloat (amount s),
                     exp_category = Some (trim (category s)),
                     exp_note = (if trim (note_field s) = [] then None else Some (trim (note_field s)))\<rparr>],
                 seq = last_rowid t + 1\<rparr>,
            amount := [], category := [], note_field := [],
            expenses := (\<lparr>exp_id = last_rowid t + 1, exp_amount = parseFloat (amount s),
                     exp_category = Some (trim (category s)),
                     exp_note = (if trim (note_field s) = [] then None else Some (trim (note_field s)))\<rparr>)
               # rev (sort_key exp_id (rows t))\<rparr>)"
proof -
  have "\<forall>y\<in>set (rows t). exp_id y \<le> last_rowid t + 1"
    using last_rowid_ge_id[of _ t] by fastforce
  then show ?thesis
    using assms by (simp add: addExpense_def Let_def loadExpenses_def sort_key_snoc_max)
qed

lemma deleteExpense_Some:
  "db s = Some t \<Longrightarrow> deleteExpense i s =
     Inr (s\<lparr>db := Some (t\<lparr>rows := filter (\<lambda>r. exp_id r \<noteq> i) (rows t)\<rparr>),
            expenses := filter (\<lambda>r. exp_id r \<noteq> i) (rev (sort_key exp_id (rows t)))\<rparr>)"
  by (simp add: deleteExpense_def loadExpenses_def filter_sort[symmetric] rev_filter)

lemma setup_effect_eq:
  "setup_effect s =
     Inr (s\<lparr>db := create_table_if_not_exists (db s),
            expenses := rev (sort_key exp_id (rows_of (db s)))\<rparr>)"
  by (cases "db s") (simp_all add: setup_effect_def loadExpenses_def rows_of_def)

lemma filter_not_mem_self: "filter (\<lambda>r. r \<notin> set xs) xs = []"
  by (simp add: filter_empty_conv)

lemma inserted_same_db: "db s' = db s \<Longrightarrow> inserted s s' = []"
  by (simp add: inserted_def filter_not_mem_self)

lemma step_facts:
  assumes "step a s = Inr s'" "wf_db (db s)"
  shows "wf_db (db s') \<and> seq_of (db s) \<le> seq_of (db s') \<and>
         list_all (\<lambda>r. seq_of (db s) < exp_id r \<and> exp_id r \<le> seq_of (db s')) (inserted s s') \<and>
         length (inserted s s') \<le> 1"
proof (cases a)
  case (ChangeAmount v)
  then show ?thesis using assms by (auto simp: inserted_same_db)
next
  case (ChangeCategory v)
  then show ?thesis using assms by (auto simp: inserted_same_db)
next
  case (ChangeNote v)
  then show ?thesis using assms by (auto simp: inserted_same_db)
next
  case PressAdd
  show ?thesis
  proof (cases "isNaN (parseFloat (amount s)) \<or> le_zero (parseFloat (amount s)) \<or> trim (category s) = []")
    case True
    then have "s' = s" using assms PressAdd addExpense_rejected[of s] by simp
    then show ?thesis using assms by (simp add: inserted_same_db)
  next
    case False
    show ?thesis
    proof (cases "db s")
      case None
      then show ?thesis using assms PressAdd False
        by (simp add: addExpense_def Let_def)
    next
      case (Some t)
      have lr: "last_rowid t = seq t" using assms(2) Some last_rowid_wf by simp
      show ?thesis
      proof (cases "last_rowid t < max_rowid")
        case True
        have bound: "\<forall>r\<in>set (rows t). exp_id r \<le> seq t"
          using assms(2) Some by (simp add: wf_db_def list_all_iff)
        have "inserted s s' =
            [\<lparr>exp_id = seq t + 1, exp_amount = parseFloat (amount s),
              exp_category = Some (trim (category s)),
              exp_note = (if trim (note_field s) = [] then None else Some (trim (note_field s)))\<rparr>]"
          using assms PressAdd False Some True lr bound addExpense_accepted[of s t]
          by (auto simp: inserted_def rows_of_def filter_empty_conv)
        moreover have "wf_db (db s')"
          using assms PressAdd False Some True lr bound addExpense_accepted[of s t]
          by (auto simp: wf_db_def list_all_iff)
        moreover have "seq_of (db s') = seq t + 1"
          using assms PressAdd False Some True lr addExpense_accepted[of s t]
          by (auto simp: seq_of_def)
        ultimately show ?thesis using Some by (simp add: seq_of_def)
      next
        case False2: False
        then show ?thesis using assms PressAdd False Some
          by (simp add: addExpense_def Let_def)
      qed
    qed
  qed
next
  case (PressDelete i)
  show ?thesis
  proof (cases "db s")
    case None
    then show ?thesis using assms PressDelete by (simp add: deleteExpense_def)
  next
    case (Some t)
    then have s': "s' = s\<lparr>db := Some (t\<lparr>rows := filter (\<lambda>r. exp_id r \<noteq> i) (rows t)\<rparr>),
            expenses := filter (\<lambda>r. exp_id r \<noteq> i) (rev (sort_key exp_id (rows t)))\<rparr>"
      using assms PressDelete deleteExpense_Some[of s t i] by simp
    have "inserted s s' = []"
      using Some by (auto simp: s' inserted_def rows_of_def filter_empty_conv)
    moreover have "wf_db (db s')"
      using assms(2) Some by (auto simp: s' wf_db_def list_all_iff distinct_map_filter)
    ultimately show ?thesis using Some by (simp add: s' seq_of_def)
  qed
next
  case Mount
  then have s': "s' = s\<lparr>db := create_table_if_not_exists (db s),
            expenses := rev (sort_key exp_id (rows_of (db s)))\<rparr>"
    using assms setup_effect_eq[of s] by simp
  show ?thesis
  proof (cases "db s")
    case None
    then show ?thesis by (simp add: s' inserted_def rows_of_def wf_db_def seq_of_def)
  next
    case (Some t)
    then show ?thesis using assms(2) by (simp add: s' inserted_same_db)
  qed
qed

lemma added_ids_increasing:
  "wf_db (db s) \<Longrightarrow>
     sorted_wrt (<) (added_ids acts s) \<and> list_all (\<lambda>i. seq_of (db s) < i) (added_ids acts s)"
proof (induction acts arbitrary: s)
  case Nil
  then show ?case by simp
next
  case (Cons a acts)
  show ?case
  proof (cases "step a s")
    case (Inl e)
    then show ?thesis by simp
  next
    case (Inr s')
    note f = step_facts[OF Inr Cons.prems]
    then have ih: "sorted_wrt (<) (added_ids acts s')"
      "list_all (\<lambda>i. seq_of (db s') < i) (added_ids acts s')"
      using Cons.IH[of s'] by simp_all
    have one: "sorted_wrt (<) (map exp_id (inserted s s'))"
      using f by (cases "inserted s s'") simp_all
    have "\<forall>x\<in>set (inserted s s'). \<forall>y\<in>set (added_ids acts s'). exp_id x < y"
      using f ih(2) by (fastforce simp: list_all_iff)
    moreover have "list_all (\<lambda>i. seq_of (db s) < i) (added_ids acts s')"
      using f ih(2) by (fastforce simp: list_all_iff)
    ultimately show ?thesis
      using Inr ih one f by (auto simp: sorted_wrt_append list_all_iff)
  qed
qed

lemma run_wf: "run acts s = Inr s' \<Longrightarrow> wf_db (db s) \<Longrightarrow> wf_db (db s')"
proof (induction acts arbitrary: s)
  case Nil
  then show ?case by simp
next
  case (Cons a acts)
  then show ?case
    by (cases "step a s") (auto dest: step_facts)
qed

lemma step_notes_ok:
  assumes "step a s = Inr s'" "notes_ok (db s)"
  shows "notes_ok (db s')"
proof (cases a)
  case PressAdd
  show ?thesis
  proof (cases "isNaN (parseFloat (amount s)) \<or> le_zero (parseFloat (amount s)) \<or> trim (category s) = []")
    case True
    then show ?thesis using assms PressAdd addExpense_rejected[of s] by simp
  next
    case False
    show ?thesis
    proof (cases "db s")
      case None
      then show ?thesis using assms PressAdd False by (simp add: addExpense_def Let_def)
    next
      case (Some t)
      show ?thesis
      proof (cases "last_rowid t < max_rowid")
        case True
        then show ?thesis
          using assms PressAdd False Some addExpense_accepted[of s t]
          by (auto simp: notes_ok_def rows_of_def)
      next
        case False2: False
        then show ?thesis using assms PressAdd False Some by (simp add: addExpense_def Let_def)
      qed
    qed
  qed
next
  case (PressDelete i)
  then show ?thesis
    using assms deleteExpense_Some[of s _ i]
    by (cases "db s") (auto simp: deleteExpense_def notes_ok_def rows_of_def list_all_iff)
next
  case Mount
  then show ?thesis
    using assms setup_effect_eq[of s]
    by (cases "db s") (auto simp: notes_ok_def rows_of_def)
qed (use assms in auto)

lemma run_notes_ok: "run acts s = Inr s' \<Longrightarrow> notes_ok (db s) \<Longrightarrow> notes_ok (db s')"
proof (induction acts arbitrary: s)
  case Nil
  then show ?case by simp
next
  case (Cons a acts)
  then show ?case
    by (cases "step a s") (auto dest: step_notes_ok)
qed

lemma filter_key_le_one:
  "distinct (map f xs) \<Longrightarrow> length (filter (\<lambda>x. f x = k) xs) \<le> 1"
proof (induction xs)
  case Nil
  then show ?case by simp
next
  case (Cons a xs)
  then show ?case
    by (auto simp: filter_empty_conv intro: rev_image_eqI)
qed

lemma length_filter_neq:
  assumes "distinct (map f xs)"
  shows "length xs \<le> Suc (length (filter (\<lambda>x. f x \<noteq> k) xs))"
proof -
  have "length xs = length (filter (\<lambda>x. f x = k) xs) + length (filter (\<lambda>x. f x \<noteq> k) xs)"
    using sum_length_filter_compl[of "\<lambda>x. f x = k" xs] by simp
  then show ?thesis
    using filter_key_le_one[OF assms, of k] by simp
qed

lemma run_replicate_Mount: "run (replicate (Suc n) Mount) s = setup_effect s"
proof (induction n)
  case 0
  then show ?case by (simp add: setup_effect_eq)
next
  case (Suc n)
  have "setup_effect (s\<lparr>db := create_table_if_not_exists (db s),
            expenses := rev (sort_key exp_id (rows_of (db s)))\<rparr>) = setup_effect s"
    by (cases "db s") (simp_all add: setup_effect_eq rows_of_def)
  then show ?case
    using Suc by (simp add: setup_effect_eq)
qed

text \<open>
  The screen as it is first rendered, before the effect has run, on a database without
  the table; every state that events lead to from there satisfies both invariants.
\<close>

lemma reachable_invariants:
  assumes "db s = None" "run acts s = Inr s'"
  shows "wf_db (db s') \<and> notes_ok (db s')"
proof -
  have "wf_db (db s)" "notes_ok (db s)"
    using assms(1) by (simp_all add: wf_db_def notes_ok_def rows_of_def)
  then show ?thesis
    using assms(2) run_wf run_notes_ok by blast
qed

section \<open>Facts about the numbers\<close>

lemma bitlen_bounds_rat:
  assumes "0 < (x::int)"
  shows "(2::rat) powi (bitlen x - 1) \<le> of_int x \<and> (of_int x :: rat) < 2 powi (bitlen x)"
proof -
  have b: "2 ^ nat (bitlen x - 1) \<le> x" "x < 2 ^ nat (bitlen x)"
    using bitlen_bounds[OF assms] by simp_all
  have pos: "0 < bitlen x"
  proof (rule ccontr)
    assume "\<not> 0 < bitlen x"
    then have "nat (bitlen x) = 0" by simp
    then show False using b(2) assms by simp
  qed
  have "(of_int (2 ^ nat (bitlen x - 1)) :: rat) \<le> of_int x"
    using b(1) by (simp only: of_int_le_iff)
  moreover have "(of_int x :: rat) < of_int (2 ^ nat (bitlen x))"
    using b(2) by (simp only: of_int_less_iff)
  ultimately show ?thesis
    using pos by (simp add: power_int_nonneg_exp)
qed

lemma ilog2_bounds:
  assumes "0 < a"
  shows "2 powi (ilog2 a) \<le> a \<and> a < 2 powi (ilog2 a + 1)"
proof -
  obtain n d where q: "quotient_of a = (n, d)"
    by (cases "quotient_of a")
  have d: "0 < d" using q by (rule quotient_of_denom_pos)
  have a: "a = of_int n / of_int d" using q by (rule quotient_of_div)
  have n: "0 < n"
    using assms d a by (simp add: zero_less_divide_iff)
  let ?k = "bitlen n - bitlen d"
  note bn = bitlen_bounds_rat[OF n] and bd = bitlen_bounds_rat[OF d]
  have D: "(0::rat) < of_int d" using d by simp
  have up: "a < 2 powi (?k + 1)"
  proof -
    have "a < 2 powi (bitlen n) / of_int d"
      using bn D by (simp add: a divide_strict_right_mono)
    also have "\<dots> \<le> 2 powi (bitlen n) / 2 powi (bitlen d - 1)"
      using bd D by (intro divide_left_mono) (simp_all add: mult_pos_pos)
    also have "\<dots> = 2 powi (?k + 1)"
      by (simp add: power_int_diff[symmetric] algebra_simps)
    finally show ?thesis .
  qed
  have low: "2 powi (?k - 1) < a"
  proof -
    have "(2::rat) powi (?k - 1) = 2 powi (bitlen n - 1) / 2 powi (bitlen d)"
      by (simp add: power_int_diff[symmetric] algebra_simps)
    also have "\<dots> < 2 powi (bitlen n - 1) / of_int d"
      using bd D by (intro divide_strict_left_mono) simp_all
    also have "\<dots> \<le> a"
      using bn D by (simp add: a divide_right_mono)
    finally show ?thesis .
  qed
  show ?thesis
  proof (cases "2 powi ?k \<le> a")
    case True
    then show ?thesis using up q by (simp add: ilog2_def)
  next
    case False
    then show ?thesis using low q by (simp add: ilog2_def)
  qed
qed

lemma round_half_even_of_int: "round_half_even (of_int m) = m"
  by (simp add: round_half_even_def)

lemma round64_of_int:
  assumes "0 \<le> k" "k \<le> 2 ^ 53"
  shows "round64 (of_int k) = Fin (of_int k)"
proof (cases "k = 0")
  case True
  then show ?thesis by (simp add: round64_def)
next
  case False
  let ?a = "of_int k :: rat"
  have k: "1 \<le> k" using assms(1) False by simp
  then have a: "1 \<le> ?a" "0 < ?a" by simp_all
  have a53: "?a \<le> 2 powi 53"
    using assms(2) by (simp add: of_int_le_numeral_power_cancel_iff)
  let ?e = "ilog2 ?a"
  note b = ilog2_bounds[OF a(2)]
  have e0: "0 \<le> ?e"
  proof (rule ccontr)
    assume "\<not> 0 \<le> ?e"
    then have "?e + 1 \<le> 0" by simp
    then have "(2::rat) powi (?e + 1) \<le> 2 powi 0"
      by (intro power_int_increasing) simp_all
    then show False using b a(1) by simp
  qed
  have e53: "?e \<le> 53"
  proof (rule ccontr)
    assume "\<not> ?e \<le> 53"
    then have "54 \<le> ?e" by simp
    then have "(2::rat) powi 54 \<le> 2 powi ?e"
      by (intro power_int_increasing) simp_all
    then have "(2::rat) powi 54 \<le> 2 powi 53"
      using b a53 by linarith
    then show False by simp
  qed
  let ?u = "2 powi (?e - 52) :: rat"
  have u: "0 < ?u" by simp
  have "\<exists>m. ?a / ?u = of_int m"
  proof (cases "?e \<le> 52")
    case True
    then have "?u = 1 / 2 ^ nat (52 - ?e)"
      by (simp add: power_int_def power_one_over)
    then have "?a / ?u = of_int (k * 2 ^ nat (52 - ?e))"
      by simp
    then show ?thesis by blast
  next
    case False
    then have e: "?e = 53" using e53 by simp
    then have "2 powi 53 \<le> ?a" using b by simp
    then have a2: "?a = 2 powi 53" using a53 by simp
    have uu: "?u = 2" by (simp add: e)
    have "?a / ?u = ?a / 2" by (simp only: uu)
    also have "\<dots> = of_int (2 ^ 52)" by (simp only: a2) simp
    finally show ?thesis by blast
  qed
  then obtain m where m: "?a / ?u = of_int m" by blast
  have r: "of_int (round_half_even (?a / ?u)) * ?u = ?a"
    using u by (simp only: m round_half_even_of_int) (simp add: m[symmetric])
  have big: "\<not> of_int (2 ^ 1024) \<le> ?a"
  proof -
    have "?a \<le> 2 ^ 53" using a53 by simp
    also have "\<dots> < (2::rat) ^ 1024" by simp
    finally show ?thesis by simp
  qed
  have mx: "max ?e (- 1022) = ?e" using e0 by simp
  show ?thesis
    using a(2) False big by (simp add: round64_def Let_def mx r)
qed

lemma jsadd_of_int:
  assumes "0 \<le> m" "0 \<le> n" "m + n \<le> 2 ^ 53"
  shows "jsadd (Fin (of_int m)) (Fin (of_int n)) = Fin (of_int (m + n))"
  using round64_of_int[of "m + n"] assms by simp

lemma foldl_jsadd_of_int:
  assumes "0 \<le> z" "list_all (\<lambda>n. 0 \<le> n) ns" "z + sum_list ns \<le> 2 ^ 53"
  shows "foldl jsadd (Fin (of_int z)) (map (\<lambda>n. Fin (of_int n)) ns) = Fin (of_int (z + sum_list ns))"
  using assms
proof (induction ns arbitrary: z)
  case Nil
  then show ?case by simp
next
  case (Cons n ns)
  have s: "0 \<le> sum_list ns"
    using Cons.prems(2) by (intro sum_list_nonneg) (simp add: list_all_iff)
  have "jsadd (Fin (of_int z)) (Fin (of_int n)) = Fin (of_int (z + n))"
    using Cons.prems s by (intro jsadd_of_int) simp_all
  moreover have "foldl jsadd (Fin (of_int (z + n))) (map (\<lambda>n. Fin (of_int n)) ns) =
      Fin (of_int (z + n + sum_list ns))"
    using Cons.prems by (intro Cons.IH) (simp_all add: add.assoc)
  ultimately show ?case by (simp add: add.assoc)
qed

lemma whole_nonneg_conv: "whole_nonneg a \<longleftrightarrow> (\<exists>n\<ge>0. a = Fin (of_int n))"
proof
  assume "whole_nonneg a"
  then obtain q where q: "a = Fin q" "0 \<le> q" "q = of_int \<lfloor>q\<rfloor>"
    by (cases a) simp_all
  then have "0 \<le> \<lfloor>q\<rfloor>" by simp
  then show "\<exists>n\<ge>0. a = Fin (of_int n)" using q by blast
next
  assume "\<exists>n\<ge>0. a = Fin (of_int n)"
  then show "whole_nonneg a" by auto
qed

lemma whole_nonneg_list:
  "list_all whole_nonneg xs \<Longrightarrow>
     \<exists>ns. list_all (\<lambda>n. 0 \<le> n) ns \<and> xs = map (\<lambda>n. Fin (of_int n)) ns"
proof (induction xs)
  case Nil
  then show ?case by simp
next
  case (Cons a xs)
  then obtain ns where ns: "list_all (\<lambda>n. 0 \<le> n) ns" "xs = map (\<lambda>n. Fin (of_int n)) ns"
    by auto
  obtain n where n: "0 \<le> n" "a = Fin (of_int n)"
    using Cons.prems by (auto simp: whole_nonneg_conv)
  have "list_all (\<lambda>n. 0 \<le> n) (n # ns) \<and> a # xs = map (\<lambda>n. Fin (of_int n)) (n # ns)"
    using ns n by simp
  then show ?case by (rule exI)
qed

lemma sum_list_of_int: "sum_list (map (\<lambda>n. of_int n :: rat) ns) = of_int (sum_list ns)"
  by (induction ns) simp_all

lemma foldl_jsadd_whole:
  assumes "list_all whole_nonneg xs" "sum_list (map num_value xs) \<le> 2 ^ 53"
  shows "foldl jsadd (Fin 0) xs = Fin (sum_list (map num_value xs))"
proof -
  obtain ns where ns: "list_all (\<lambda>n. 0 \<le> n) ns" "xs = map (\<lambda>n. Fin (of_int n)) ns"
    using whole_nonneg_list[OF assms(1)] by blast
  have v: "sum_list (map num_value xs) = of_int (sum_list ns)"
    by (simp add: ns(2) comp_def sum_list_of_int)
  then have "(of_int (sum_list ns) :: rat) \<le> 2 ^ 53"
    using assms(2) by simp
  then have "sum_list ns \<le> 2 ^ 53"
    by (simp add: of_int_le_numeral_power_cancel_iff)
  then have "foldl jsadd (Fin (of_int 0)) (map (\<lambda>n. Fin (of_int n)) ns) = Fin (of_int (0 + sum_list ns))"
    using ns(1) by (intro foldl_jsadd_of_int) simp_all
  then show ?thesis
    by (simp add: ns(2) comp_def sum_list_of_int)
qed

section \<open>Facts about the category totals\<close>

subsection \<open>The object of totals\<close>

lemma proto_not_ordinary: "k \<notin> set object_prototype_names \<Longrightarrow> k \<noteq> ''__proto__''"
  by (auto simp: object_prototype_names_def)

lemma map_fst_replace_value: "map fst (replace_value k v obj) = map fst obj"
  by (induction obj) (auto simp: replace_value_def)

lemma map_of_replace_value:
  "map_of (replace_value k v obj) k' =
     (if k' = k \<and> k \<in> set (map fst obj) then Some v else map_of obj k')"
proof (induction obj)
  case Nil
  then show ?case by (simp add: replace_value_def)
next
  case (Cons p obj)
  have r: "replace_value k v (p # obj) = (if fst p = k then (k, v) else p) # replace_value k v obj"
    by (simp add: replace_value_def)
  show ?case
    unfolding r using Cons by (cases p) force
qed

lemma replace_value_append:
  "replace_value k v (xs @ ys) = replace_value k v xs @ replace_value k v ys"
  by (simp add: replace_value_def)

lemma replace_value_single: "replace_value k v [(k, w)] = [(k, v)]"
  by (simp add: replace_value_def)

lemma replace_value_twice: "replace_value k v (replace_value k w obj) = replace_value k v obj"
  by (induction obj) (auto simp: replace_value_def)

lemma replace_value_absent: "k \<notin> set (map fst obj) \<Longrightarrow> replace_value k v obj = obj"
  by (induction obj) (auto simp: replace_value_def)

lemma add_to_totals_new:
  assumes "category_or_other e \<notin> set object_prototype_names"
    and "category_or_other e \<notin> set (map fst obj)"
  shows "add_to_totals obj e =
           obj @ [(category_or_other e, Num (jsadd (Fin 0) (amount_or_zero e)))]"
proof -
  let ?c = "category_or_other e"
  have "map_of obj ?c = None"
    using assms(2) by (simp add: map_of_eq_None_iff)
  then have g: "get_prop obj ?c = Undefined"
    using assms(1) by (simp add: get_prop_def)
  have p: "?c \<noteq> ''__proto__''"
    using assms(1) by (rule proto_not_ordinary)
  have s1: "set_prop obj ?c (Num (Fin 0)) = obj @ [(?c, Num (Fin 0))]"
    using assms(2) p by (simp add: set_prop_def)
  have "map_of (obj @ [(?c, Num (Fin 0))]) ?c = Some (Num (Fin 0))"
    using \<open>map_of obj ?c = None\<close> by (simp add: map_add_def)
  then have g1: "get_prop (obj @ [(?c, Num (Fin 0))]) ?c = Num (Fin 0)"
    by (simp add: get_prop_def)
  have s2: "set_prop (obj @ [(?c, Num (Fin 0))]) ?c v = obj @ [(?c, v)]" for v
    using assms(2) p
    by (simp add: set_prop_def replace_value_append replace_value_single replace_value_absent)
  show ?thesis
    by (simp add: add_to_totals_def Let_def g s1 g1 s2)
qed

lemma add_to_totals_old:
  assumes "category_or_other e \<notin> set object_prototype_names"
    and "map_of obj (category_or_other e) = Some (Num n)" "n \<noteq> NaN"
  shows "add_to_totals obj e =
           replace_value (category_or_other e) (Num (jsadd n (amount_or_zero e))) obj"
proof -
  let ?c = "category_or_other e"
  have mem: "?c \<in> set (map fst obj)"
    using assms(2) by (metis map_of_eq_None_iff option.distinct(1) set_map)
  have p: "?c \<noteq> ''__proto__''"
    using assms(1) by (rule proto_not_ordinary)
  have g: "get_prop obj ?c = Num n"
    using assms(2) by (simp add: get_prop_def)
  show ?thesis
  proof (cases "falsy_num n")
    case True
    then have n0: "n = Fin 0"
      using assms(3) by (cases n) simp_all
    have s1: "set_prop obj ?c (Num (Fin 0)) = replace_value ?c (Num (Fin 0)) obj"
      using mem p by (simp add: set_prop_def)
    have g1: "get_prop (replace_value ?c (Num (Fin 0)) obj) ?c = Num (Fin 0)"
      using mem by (simp add: get_prop_def map_of_replace_value)
    have s2: "set_prop (replace_value ?c (Num (Fin 0)) obj) ?c v = replace_value ?c v obj" for v
      using mem p by (simp add: set_prop_def map_fst_replace_value replace_value_twice)
    show ?thesis
      using True by (simp add: add_to_totals_def Let_def g s1 g1 s2 n0)
  next
    case False
    have s2: "set_prop obj ?c v = replace_value ?c v obj" for v
      using mem p by (simp add: set_prop_def)
    show ?thesis
      using False by (simp add: add_to_totals_def Let_def g s2)
  qed
qed

subsection \<open>Amounts that are not negative\<close>

lemma round_half_even_nonneg: "0 \<le> x \<Longrightarrow> 0 \<le> round_half_even x"
  by (auto simp: round_half_even_def Let_def)

lemma round64_nonneg: "0 \<le> q \<Longrightarrow> nonneg_num (round64 q)"
proof (cases "q = 0")
  case True
  then show ?thesis by (simp add: round64_def)
next
  case False
  assume "0 \<le> q"
  then have q: "0 < q" using False by simp
  let ?u = "2 powi (max (ilog2 \<bar>q\<bar>) (- 1022) - 52) :: rat"
  have u: "0 < ?u" by simp
  then have "0 \<le> \<bar>q\<bar> / ?u" by simp
  then have "0 \<le> round_half_even (\<bar>q\<bar> / ?u)"
    by (rule round_half_even_nonneg)
  then have "0 \<le> of_int (round_half_even (\<bar>q\<bar> / ?u)) * ?u"
    using u by simp
  then show ?thesis
    using q by (simp add: round64_def Let_def)
qed

lemma jsadd_nonneg: "nonneg_num a \<Longrightarrow> nonneg_num b \<Longrightarrow> nonneg_num (jsadd a b)"
  by (cases a; cases b) (simp_all add: round64_nonneg)

lemma foldl_jsadd_nonneg:
  "nonneg_num z \<Longrightarrow> list_all nonneg_num xs \<Longrightarrow> nonneg_num (foldl jsadd z xs)"
  by (induction xs arbitrary: z) (simp_all add: jsadd_nonneg)

lemma nonneg_not_NaN: "nonneg_num n \<Longrightarrow> n \<noteq> NaN"
  by auto

lemma amount_or_zero_nonneg: "nonneg_num (exp_amount e) \<Longrightarrow> amount_or_zero e = exp_amount e"
  by (cases "exp_amount e") (simp_all add: amount_or_zero_def)

subsection \<open>Labels and groups\<close>

lemma first_seen_snoc:
  "first_seen (xs @ [x]) = (if x \<in> set xs then first_seen xs else first_seen xs @ [x])"
  by (simp add: first_seen_def)

lemma set_first_seen: "set (first_seen xs) = set xs"
  by (simp add: first_seen_def)

lemma distinct_first_seen: "distinct (first_seen xs)"
  by (simp add: first_seen_def)

lemma group_amounts_snoc:
  "group_amounts c (es @ [r]) =
     (if category_or_other r = c then group_amounts c es @ [exp_amount r] else group_amounts c es)"
  by (simp add: group_amounts_def)

lemma group_amounts_absent:
  "c \<notin> set (map category_or_other es) \<Longrightarrow> group_amounts c es = []"
  by (auto simp: group_amounts_def filter_empty_conv)

lemma group_amounts_nonneg:
  "list_all (\<lambda>r. nonneg_num (exp_amount r)) es \<Longrightarrow> list_all nonneg_num (group_amounts c es)"
  by (auto simp: group_amounts_def list_all_iff)

subsection \<open>What the loop leaves in the object\<close>

lemma totals_of_ordinary:
  assumes "list_all (\<lambda>r. category_or_other r \<notin> set object_prototype_names) es"
    and "list_all (\<lambda>r. nonneg_num (exp_amount r)) es"
  shows "map fst (foldl add_to_totals [] es) = first_seen (map category_or_other es) \<and>
         (\<forall>c\<in>set (map category_or_other es).
            map_of (foldl add_to_totals [] es) c =
              Some (Num (foldl jsadd (Fin 0) (group_amounts c es))))"
  using assms
proof (induction es rule: rev_induct)
  case Nil
  then show ?case by (simp add: first_seen_def)
next
  case (snoc r es)
  let ?T = "foldl add_to_totals [] es"
  let ?c = "category_or_other r"
  have ord: "?c \<notin> set object_prototype_names" and nn: "nonneg_num (exp_amount r)"
    using snoc.prems by simp_all
  have a: "amount_or_zero r = exp_amount r"
    using nn by (rule amount_or_zero_nonneg)
  have ih: "map fst ?T = first_seen (map category_or_other es)"
    "\<forall>c\<in>set (map category_or_other es).
        map_of ?T c = Some (Num (foldl jsadd (Fin 0) (group_amounts c es)))"
    using snoc by simp_all
  have keys: "set (map fst ?T) = set (map category_or_other es)"
    using ih(1) by (simp add: set_first_seen)
  show ?case
  proof (cases "?c \<in> set (map category_or_other es)")
    case False
    then have new: "add_to_totals ?T r = ?T @ [(?c, Num (jsadd (Fin 0) (exp_amount r)))]"
      using add_to_totals_new[OF ord, of ?T] keys a by simp
    have 1: "map fst (foldl add_to_totals [] (es @ [r])) = first_seen (map category_or_other (es @ [r]))"
      using False ih(1) by (simp add: new first_seen_snoc)
    have 2: "map_of (foldl add_to_totals [] (es @ [r])) c =
              Some (Num (foldl jsadd (Fin 0) (group_amounts c (es @ [r]))))"
      if "c \<in> set (map category_or_other (es @ [r]))" for c
    proof (cases "c = ?c")
      case True
      have "map_of ?T ?c = None"
        using False keys by (metis map_of_eq_None_iff set_map)
      then show ?thesis
        using True False by (simp add: new map_add_def group_amounts_snoc group_amounts_absent)
    next
      case c: False
      then have "c \<in> set (map category_or_other es)" using that by auto
      then have "map_of ?T c = Some (Num (foldl jsadd (Fin 0) (group_amounts c es)))"
        using ih(2) by blast
      then show ?thesis
        using c by (simp add: new map_add_def group_amounts_snoc)
    qed
    show ?thesis using 1 2 by blast
  next
    case True
    let ?n = "foldl jsadd (Fin 0) (group_amounts ?c es)"
    have m: "map_of ?T ?c = Some (Num ?n)"
      using True ih(2) by blast
    have "list_all nonneg_num (group_amounts ?c es)"
      using snoc.prems(2) by (intro group_amounts_nonneg) simp
    then have "nonneg_num ?n"
      by (intro foldl_jsadd_nonneg) simp_all
    then have "?n \<noteq> NaN" by (rule nonneg_not_NaN)
    then have old: "add_to_totals ?T r = replace_value ?c (Num (jsadd ?n (exp_amount r))) ?T"
      using add_to_totals_old[OF ord m] a by simp
    have 1: "map fst (foldl add_to_totals [] (es @ [r])) = first_seen (map category_or_other (es @ [r]))"
      using True ih(1) by (simp add: old first_seen_snoc map_fst_replace_value)
    have mem: "?c \<in> set (map fst ?T)"
      using True keys by simp
    have 2: "map_of (foldl add_to_totals [] (es @ [r])) c =
              Some (Num (foldl jsadd (Fin 0) (group_amounts c (es @ [r]))))"
      if "c \<in> set (map category_or_other (es @ [r]))" for c
    proof (cases "c = ?c")
      case c: True
      show ?thesis
        using mem by (simp add: c old map_of_replace_value group_amounts_snoc del: set_map)
    next
      case c: False
      then have "c \<in> set (map category_or_other es)" using that by auto
      then have "map_of ?T c = Some (Num (foldl jsadd (Fin 0) (group_amounts c es)))"
        using ih(2) by blast
      then show ?thesis
        using c by (simp add: old map_of_replace_value group_amounts_snoc del: set_map)
    qed
    show ?thesis using 1 2 by blast
  qed
qed

subsection \<open>From the object to the chart entries\<close>

lemma insort_key_map_fst:
  "map fst (insort_key (\<lambda>p. g (fst p)) x xs) = insort_key g (fst x) (map fst xs)"
  by (induction xs) simp_all

lemma sort_key_map_fst:
  "map fst (sort_key (\<lambda>p. g (fst p)) xs) = sort_key g (map fst xs)"
  by (induction xs) (simp_all add: insort_key_map_fst)

lemma map_fst_object_entries:
  "map fst (object_entries obj) =
     sort_key digits_val (filter is_array_index (map fst obj)) @
     filter (\<lambda>k. \<not> is_array_index k) (map fst obj)"
  by (simp add: object_entries_def sort_key_map_fst filter_map comp_def)

lemma set_object_entries: "set (object_entries obj) = set obj"
  by (auto simp: object_entries_def)

lemma slices_of_entries:
  "map (\<lambda>sl. (slice_name sl, slice_amount sl))
     (map (\<lambda>(index, (category, total)).
             \<lparr>slice_name = category, slice_amount = total,
              slice_color = pieChartColors ! (index mod length pieChartColors),
              legendFontColor = darkText, legendFontSize = 14\<rparr>)
        (enumerate n xs)) = xs"
  by (induction xs arbitrary: n) auto

lemma getCategoryTotals_entries:
  "map (\<lambda>sl. (slice_name sl, slice_amount sl)) (getCategoryTotals s) =
     object_entries (foldl add_to_totals [] (expenses s))"
  unfolding getCategoryTotals_def Let_def by (rule slices_of_entries)

lemma getCategoryTotals_names:
  "map slice_name (getCategoryTotals s) =
     map fst (object_entries (foldl add_to_totals [] (expenses s)))"
proof -
  have "map slice_name (getCategoryTotals s) =
        map fst (map (\<lambda>sl. (slice_name sl, slice_amount sl)) (getCategoryTotals s))"
    by (simp add: comp_def)
  then show ?thesis
    by (simp only: getCategoryTotals_entries)
qed

lemma getCategoryTotals_amounts:
  "map slice_amount (getCategoryTotals s) =
     map snd (object_entries (foldl add_to_totals [] (expenses s)))"
proof -
  have "map slice_amount (getCategoryTotals s) =
        map snd (map (\<lambda>sl. (slice_name sl, slice_amount sl)) (getCategoryTotals s))"
    by (simp add: comp_def)
  then show ?thesis
    by (simp only: getCategoryTotals_entries)
qed

lemma index_order_when_no_index:
  "list_all (\<lambda>k. \<not> is_array_index k) ks \<Longrightarrow>
     sort_key digits_val (filter is_array_index ks) @ filter (\<lambda>k. \<not> is_array_index k) ks = ks"
proof -
  assume a: "list_all (\<lambda>k. \<not> is_array_index k) ks"
  then have "filter is_array_index ks = []"
    by (simp add: filter_empty_conv list_all_iff)
  moreover have "filter (\<lambda>k. \<not> is_array_index k) ks = ks"
    using a by (simp add: filter_id_conv list_all_iff)
  ultimately show ?thesis by simp
qed

lemma category_totals_char:
  assumes "list_all (\<lambda>r. category_or_other r \<notin> set object_prototype_names) (expenses s)"
    and "list_all (\<lambda>r. nonneg_num (exp_amount r)) (expenses s)"
  shows "map slice_name (getCategoryTotals s) =
           sort_key digits_val
             (filter is_array_index (first_seen (map category_or_other (expenses s)))) @
           filter (\<lambda>k. \<not> is_array_index k) (first_seen (map category_or_other (expenses s))) \<and>
         distinct (map slice_name (getCategoryTotals s)) \<and>
         set (map slice_name (getCategoryTotals s)) = set (map category_or_other (expenses s)) \<and>
         (\<forall>sl\<in>set (getCategoryTotals s).
            slice_amount sl =
              Num (foldl jsadd (Fin 0) (group_amounts (slice_name sl) (expenses s)))) \<and>
         (list_all (\<lambda>k. \<not> is_array_index k) (map category_or_other (expenses s)) \<longrightarrow>
            map slice_name (getCategoryTotals s) = first_seen (map category_or_other (expenses s)))"
proof -
  let ?T = "foldl add_to_totals [] (expenses s)"
  let ?L = "first_seen (map category_or_other (expenses s))"
  note t = totals_of_ordinary[OF assms]
  have keys: "map fst ?T = ?L"
    using t by simp
  have names: "map slice_name (getCategoryTotals s) =
      sort_key digits_val (filter is_array_index ?L) @ filter (\<lambda>k. \<not> is_array_index k) ?L"
    by (simp only: getCategoryTotals_names map_fst_object_entries keys)
  have "set (sort_key digits_val (filter is_array_index ?L) @ filter (\<lambda>k. \<not> is_array_index k) ?L)
          = set ?L"
    by auto
  then have set_names: "set (map slice_name (getCategoryTotals s)) = set (map category_or_other (expenses s))"
    by (simp only: names set_first_seen)
  have "distinct (sort_key digits_val (filter is_array_index ?L) @ filter (\<lambda>k. \<not> is_array_index k) ?L)"
    using distinct_first_seen[of "map category_or_other (expenses s)"] by auto
  then have dist: "distinct (map slice_name (getCategoryTotals s))"
    by (simp only: names)
  have amounts: "slice_amount sl = Num (foldl jsadd (Fin 0) (group_amounts (slice_name sl) (expenses s)))"
    if "sl \<in> set (getCategoryTotals s)" for sl
  proof -
    have "(slice_name sl, slice_amount sl) \<in>
            set (map (\<lambda>sl. (slice_name sl, slice_amount sl)) (getCategoryTotals s))"
      using that by force
    then have "(slice_name sl, slice_amount sl) \<in> set ?T"
      by (simp only: getCategoryTotals_entries set_object_entries)
    moreover have "distinct (map fst ?T)"
      by (simp only: keys distinct_first_seen)
    ultimately have m: "map_of ?T (slice_name sl) = Some (slice_amount sl)"
      by (rule map_of_eq_Some_iff[THEN iffD2, rotated])
    have "slice_name sl \<in> set (map category_or_other (expenses s))"
      using that set_names by auto
    then have "map_of ?T (slice_name sl) =
        Some (Num (foldl jsadd (Fin 0) (group_amounts (slice_name sl) (expenses s))))"
      using t by blast
    then show ?thesis using m by simp
  qed
  have first: "map slice_name (getCategoryTotals s) = ?L"
    if "list_all (\<lambda>k. \<not> is_array_index k) (map category_or_other (expenses s))"
  proof -
    have "list_all (\<lambda>k. \<not> is_array_index k) ?L"
      using that by (simp add: list_all_iff set_first_seen)
    then show ?thesis
      by (simp only: names index_order_when_no_index)
  qed
  show ?thesis
    using names dist set_names amounts first by blast
qed

lemma sum_by_group:
  fixes f :: "'a \<Rightarrow> rat"
  shows "(\<Sum>c\<in>g ` set es. sum_list (map f (filter (\<lambda>r. g r = c) es))) = sum_list (map f es)"
proof (induction es)
  case Nil
  then show ?case by simp
next
  case (Cons r rs)
  let ?F = "\<lambda>c. sum_list (map f (filter (\<lambda>r. g r = c) rs))"
  let ?S = "g ` set rs"
  have fin: "finite ?S" by simp
  have zero: "?F (g r) = 0" if "g r \<notin> ?S"
  proof -
    have "filter (\<lambda>x. g x = g r) rs = []"
      using that by (auto simp: filter_empty_conv intro: rev_image_eqI)
    then show ?thesis by simp
  qed
  have same: "(\<Sum>c\<in>insert (g r) ?S. ?F c) = (\<Sum>c\<in>?S. ?F c)"
  proof (cases "g r \<in> ?S")
    case True
    then show ?thesis by (simp add: insert_absorb)
  next
    case False
    then show ?thesis using zero fin by simp
  qed
  have "(\<Sum>c\<in>g ` set (r # rs). sum_list (map f (filter (\<lambda>x. g x = c) (r # rs)))) =
        (\<Sum>c\<in>insert (g r) ?S. (if g r = c then f r else 0) + ?F c)"
    by (intro sum.cong) auto
  also have "\<dots> = (\<Sum>c\<in>insert (g r) ?S. (if g r = c then f r else 0)) + (\<Sum>c\<in>insert (g r) ?S. ?F c)"
    by (rule sum.distrib)
  also have "(\<Sum>c\<in>insert (g r) ?S. (if g r = c then f r else 0)) = f r"
    using fin by (simp add: sum.delta')
  finally show ?case
    using same Cons.IH by simp
qed

lemma sum_list_filter_le:
  fixes f :: "'a \<Rightarrow> rat"
  assumes "\<forall>x\<in>set xs. 0 \<le> f x"
  shows "sum_list (map f (filter P xs)) \<le> sum_list (map f xs)"
  using assms by (induction xs) (auto intro: add_increasing)

lemma whole_nonneg_value: "whole_nonneg a \<Longrightarrow> 0 \<le> num_value a"
  by (cases a) simp_all

lemma whole_nonneg_nonneg: "whole_nonneg a \<Longrightarrow> nonneg_num a"
  by (cases a) simp_all

lemma whole_nonneg_sum:
  assumes "list_all whole_nonneg xs"
  shows "whole_nonneg (Fin (sum_list (map num_value xs)))"
proof -
  obtain ns where ns: "list_all (\<lambda>n. 0 \<le> n) ns" "xs = map (\<lambda>n. Fin (of_int n)) ns"
    using whole_nonneg_list[OF assms] by blast
  have "sum_list (map num_value xs) = of_int (sum_list ns)"
    by (simp add: ns(2) comp_def sum_list_of_int)
  moreover have "0 \<le> sum_list ns"
    using ns(1) by (intro sum_list_nonneg) (simp add: list_all_iff)
  ultimately show ?thesis by simp
qed

lemma group_total_whole:
  assumes "list_all (\<lambda>r. whole_nonneg (exp_amount r)) es"
    and "sum_list (map (\<lambda>r. num_value (exp_amount r)) es) \<le> 2 ^ 53"
  shows "foldl jsadd (Fin 0) (group_amounts c es) = Fin (sum_list (map num_value (group_amounts c es))) \<and>
         whole_nonneg (Fin (sum_list (map num_value (group_amounts c es))))"
proof -
  have w: "list_all whole_nonneg (group_amounts c es)"
    using assms(1) by (auto simp: group_amounts_def list_all_iff)
  have "sum_list (map num_value (group_amounts c es)) =
        sum_list (map (\<lambda>r. num_value (exp_amount r)) (filter (\<lambda>r. category_or_other r = c) es))"
    by (simp add: group_amounts_def comp_def)
  also have "\<dots> \<le> sum_list (map (\<lambda>r. num_value (exp_amount r)) es)"
    using assms(1) by (intro sum_list_filter_le) (simp add: list_all_iff whole_nonneg_value)
  finally have "sum_list (map num_value (group_amounts c es)) \<le> 2 ^ 53"
    using assms(2) by simp
  then show ?thesis
    using w whole_nonneg_sum[OF w] by (simp add: foldl_jsadd_whole del: whole_nonneg.simps)
qed

lemma category_or_other_absent:
  "exp_category e = None \<or> exp_category e = Some [] \<Longrightarrow> category_or_other e = ''Other''"
  by (auto simp: category_or_other_def)

lemma category_or_other_present:
  "exp_category e = Some c \<Longrightarrow> c \<noteq> [] \<Longrightarrow> category_or_other e = c"
  by (simp add: category_or_other_def)

lemma category_totals_sum_char:
  assumes "list_all (\<lambda>r. category_or_other r \<notin> set object_prototype_names) (expenses s)"
    and "list_all (\<lambda>r. nonneg_num (exp_amount r)) (expenses s)"
    and "list_all (group_total_exact (expenses s)) (map category_or_other (expenses s))"
  shows "(\<forall>sl\<in>set (getCategoryTotals s).
            slice_amount sl =
              Num (Fin (sum_list (map num_value (group_amounts (slice_name sl) (expenses s)))))) \<and>
         sum_list (map (\<lambda>sl. finite_value (slice_amount sl)) (getCategoryTotals s)) =
           sum_list (map (\<lambda>r. num_value (exp_amount r)) (expenses s))"
proof -
  let ?es = "expenses s"
  let ?out = "getCategoryTotals s"
  let ?G = "\<lambda>c. sum_list (map num_value (group_amounts c ?es))"
  let ?total = "sum_list (map (\<lambda>r. num_value (exp_amount r)) ?es)"
  note ch = category_totals_char[OF assms(1,2)]
  have amt0: "\<forall>sl\<in>set ?out.
      slice_amount sl = Num (foldl jsadd (Fin 0) (group_amounts (slice_name sl) ?es))"
    using ch by blast
  have dist: "distinct (map slice_name ?out)"
    and names: "set (map slice_name ?out) = set (map category_or_other ?es)"
    using ch by blast+
  have amt: "slice_amount sl = Num (Fin (?G (slice_name sl)))" if "sl \<in> set ?out" for sl
  proof -
    have "slice_name sl \<in> set (map category_or_other ?es)"
      using that names by auto
    then have "group_total_exact ?es (slice_name sl)"
      using assms(3) by (auto simp: list_all_iff)
    then show ?thesis
      using amt0 that by (simp add: group_total_exact_def)
  qed
  have "sum_list (map (\<lambda>sl. finite_value (slice_amount sl)) ?out) =
        sum_list (map (\<lambda>sl. ?G (slice_name sl)) ?out)"
    using amt by (intro arg_cong[where f = sum_list] map_cong) (simp_all add: finite_value_def)
  also have "\<dots> = sum_list (map ?G (map slice_name ?out))"
    by (simp add: comp_def)
  also have "\<dots> = (\<Sum>c\<in>set (map slice_name ?out). ?G c)"
    using dist by (rule sum_list_distinct_conv_sum_set)
  also have "\<dots> = (\<Sum>c\<in>category_or_other ` set ?es. ?G c)"
    using names by simp
  also have "\<dots> = (\<Sum>c\<in>category_or_other ` set ?es.
        sum_list (map (\<lambda>r. num_value (exp_amount r)) (filter (\<lambda>r. category_or_other r = c) ?es)))"
    by (simp add: group_amounts_def comp_def)
  also have "\<dots> = ?total"
    by (rule sum_by_group)
  finally have "sum_list (map (\<lambda>sl. finite_value (slice_amount sl)) ?out) = ?total" .
  then show ?thesis
    using amt by blast
qed

lemma whole_amounts_group_total_exact:
  assumes "list_all (\<lambda>r. whole_nonneg (exp_amount r)) es"
    and "sum_list (map (\<lambda>r. num_value (exp_amount r)) es) \<le> 2 ^ 53"
  shows "group_total_exact es c"
  using group_total_whole[OF assms, of c] by (simp add: group_total_exact_def)

section \<open>The claims of the specification\<close>

text \<open>
  Claim C1.  When the amount parses to a number that is neither \<open>NaN\<close> nor \<open>\<le> 0\<close> and
  the category is not empty after trimming, and the table exists and can still give out
  an id, \<open>addExpense\<close> succeeds; the list read afterwards is the list before with exactly
  one record put in front, which carries the parsed amount, the trimmed category and the
  trimmed note (\<open>null\<close> for an empty one); its id is greater than the id of every row
  that was in the table; and whatever events follow, deletions included, the ids given
  out later are greater still and strictly increasing, so no id is used twice.
\<close>

theorem addExpense_valid_adds_one_record:
  assumes "\<not> isNaN (parseFloat (amount s))" "\<not> le_zero (parseFloat (amount s))"
    and "trim (category s) \<noteq> []" "db s = Some t" "wf_db (db s)" "seq t < max_rowid"
  shows "\<exists>s' new.
           addExpense s = Inr s' \<and>
           new = \<lparr>exp_id = seq t + 1, exp_amount = parseFloat (amount s),
                  exp_category = Some (trim (category s)),
                  exp_note = (if trim (note_field s) = [] then None else Some (trim (note_field s)))\<rparr> \<and>
           select_order_by_id_desc (db s') = Inr (new # rev (sort_key exp_id (rows t))) \<and>
           expenses s' = new # rev (sort_key exp_id (rows t)) \<and>
           (\<forall>r\<in>set (rows t). exp_id r < exp_id new) \<and>
           (\<forall>acts. sorted_wrt (<) (exp_id new # added_ids acts s'))"
proof -
  let ?new = "\<lparr>exp_id = seq t + 1, exp_amount = parseFloat (amount s),
                exp_category = Some (trim (category s)),
                exp_note = (if trim (note_field s) = [] then None else Some (trim (note_field s)))\<rparr>"
  have lr: "last_rowid t = seq t"
    using assms(4,5) last_rowid_wf by simp
  have bound: "\<forall>r\<in>set (rows t). exp_id r \<le> seq t"
    using assms(4,5) by (simp add: wf_db_def list_all_iff)
  obtain s' where s': "addExpense s = Inr s'"
    "db s' = Some \<lparr>rows = rows t @ [?new], seq = seq t + 1\<rparr>"
    "expenses s' = ?new # rev (sort_key exp_id (rows t))"
    using assms lr addExpense_accepted[of s t] by simp
  have "sort_key exp_id (rows t @ [?new]) = sort_key exp_id (rows t) @ [?new]"
    by (rule sort_key_snoc_max) (use bound in fastforce)
  then have sel: "select_order_by_id_desc (db s') = Inr (?new # rev (sort_key exp_id (rows t)))"
    by (simp add: s'(2))
  have wf': "wf_db (db s')"
    using assms(4,5) bound by (auto simp: s'(2) wf_db_def list_all_iff)
  have later: "sorted_wrt (<) (exp_id ?new # added_ids acts s')" for acts
    using added_ids_increasing[OF wf', of acts]
    by (simp add: s'(2) seq_of_def list_all_iff)
  have "\<forall>r\<in>set (rows t). exp_id r < exp_id ?new"
    using bound by fastforce
  then show ?thesis
    using s'(1,3) sel later by (intro exI[of _ s'] exI[of _ ?new]) simp
qed

theorem addExpense_valid_adds_one_record_witness:
  "\<not> isNaN (parseFloat ''12.50'') \<and> \<not> le_zero (parseFloat ''12.50'') \<and> trim '' Food '' \<noteq> [] \<and>
   wf_db (Some \<lparr>rows = [\<lparr>exp_id = 1, exp_amount = Fin 4, exp_category = Some ''Rent'',
                              exp_note = None\<rparr>], seq = 2\<rparr>) \<and>
   (2::int) < max_rowid \<and>
   (\<exists>s'. addExpense
           \<lparr>db = Some \<lparr>rows = [\<lparr>exp_id = 1, exp_amount = Fin 4, exp_category = Some ''Rent'',
                                   exp_note = None\<rparr>], seq = 2\<rparr>,
              expenses = [], amount = ''12.50'', category = '' Food '', note_field = ''lunch''\<rparr> = Inr s' \<and>
         expenses s' =
           [\<lparr>exp_id = 3, exp_amount = Fin (25 / 2), exp_category = Some ''Food'',
              exp_note = Some ''lunch''\<rparr>,
            \<lparr>exp_id = 1, exp_amount = Fin 4, exp_category = Some ''Rent'', exp_note = None\<rparr>])"
proof -
  have h: "\<not> isNaN (parseFloat ''12.50'')" "\<not> le_zero (parseFloat ''12.50'')"
    "trim '' Food '' \<noteq> []"
    "wf_db (Some \<lparr>rows = [\<lparr>exp_id = 1, exp_amount = Fin 4, exp_category = Some ''Rent'',
                              exp_note = None\<rparr>], seq = 2\<rparr>)"
    "(2::int) < max_rowid"
    by code_simp+
  have v: "parseFloat ''12.50'' = Fin (25 / 2)" "trim '' Food '' = ''Food''"
    "trim ''lunch'' = ''lunch''"
    by code_simp+
  show ?thesis
    using h v addExpense_valid_adds_one_record
      [of "\<lparr>db = Some \<lparr>rows = [\<lparr>exp_id = 1, exp_amount = Fin 4, exp_category = Some ''Rent'',
                                   exp_note = None\<rparr>], seq = 2\<rparr>,
              expenses = [], amount = ''12.50'', category = '' Food '', note_field = ''lunch''\<rparr>"
          "\<lparr>rows = [\<lparr>exp_id = 1, exp_amount = Fin 4, exp_category = Some ''Rent'',
                                   exp_note = None\<rparr>], seq = 2\<rparr>"]
    by auto
qed

text \<open>
  Claim C2, as the code has it.  When \<open>parseFloat\<close> of the amount is \<open>NaN\<close> (the input
  has no numeric prefix) or is \<open>\<le> 0\<close>, or the category is empty after trimming,
  \<open>addExpense\<close> changes nothing: the database and the list are as before, and reading
  the list afterwards gives what reading it before gives.
\<close>

theorem addExpense_rejected_no_change:
  assumes "isNaN (parseFloat (amount s)) \<or> le_zero (parseFloat (amount s)) \<or> trim (category s) = []"
  shows "\<exists>s'. addExpense s = Inr s' \<and> db s' = db s \<and> expenses s' = expenses s \<and>
           loadExpenses s' = loadExpenses s"
  using assms by (auto simp: addExpense_def Let_def)

theorem addExpense_rejected_no_change_witness:
  "isNaN (parseFloat ''abc'') \<and>
   (\<exists>s'. addExpense \<lparr>db = Some \<lparr>rows = [\<lparr>exp_id = 1, exp_amount = Fin 10,
                              exp_category = Some ''Food'', exp_note = None\<rparr>], seq = 1\<rparr>,
                         expenses = [],
                         amount = ''abc'', category = ''Food'', note_field = ''''\<rparr> = Inr s' \<and>
         db s' = Some \<lparr>rows = [\<lparr>exp_id = 1, exp_amount = Fin 10,
                              exp_category = Some ''Food'', exp_note = None\<rparr>], seq = 1\<rparr>)"
proof -
  have h: "isNaN (parseFloat ''abc'')"
    by code_simp
  show ?thesis
    using h addExpense_rejected_no_change
      [of "\<lparr>db = Some \<lparr>rows = [\<lparr>exp_id = 1, exp_amount = Fin 10,
                              exp_category = Some ''Food'', exp_note = None\<rparr>], seq = 1\<rparr>,
            expenses = [],
            amount = ''abc'', category = ''Food'', note_field = ''''\<rparr>"]
    by auto
qed

text \<open>
  The claim also asks that an amount which is not a finite number be rejected.  The
  check is \<open>isNaN(amountNumber) || amountNumber <= 0\<close>, which \<open>Infinity\<close> passes: the
  input \<open>Infinity\<close> is stored as a record.
\<close>

theorem addExpense_infinity_counterexample:
  "parseFloat ''Infinity'' = PosInf \<and>
   addExpense \<lparr>db = Some \<lparr>rows = [], seq = 0\<rparr>, expenses = [],
                amount = ''Infinity'', category = ''Food'', note_field = ''''\<rparr> =
   Inr \<lparr>db = Some \<lparr>rows = [\<lparr>exp_id = 1, exp_amount = PosInf,
                              exp_category = Some ''Food'', exp_note = None\<rparr>],
                     seq = 1\<rparr>,
        expenses = [\<lparr>exp_id = 1, exp_amount = PosInf,
                     exp_category = Some ''Food'', exp_note = None\<rparr>],
        amount = '''', category = '''', note_field = ''''\<rparr>"
  by code_simp

text \<open>
  Likewise an input that starts with a number and goes on with other text is taken for
  its numeric prefix.
\<close>

lemma addExpense_numeric_prefix_example:
  "parseFloat ''12abc'' = Fin 12 \<and>
   addExpense \<lparr>db = Some \<lparr>rows = [], seq = 0\<rparr>, expenses = [],
                amount = ''12abc'', category = ''Food'', note_field = ''''\<rparr> =
   Inr \<lparr>db = Some \<lparr>rows = [\<lparr>exp_id = 1, exp_amount = Fin 12,
                              exp_category = Some ''Food'', exp_note = None\<rparr>],
                     seq = 1\<rparr>,
        expenses = [\<lparr>exp_id = 1, exp_amount = Fin 12,
                     exp_category = Some ''Food'', exp_note = None\<rparr>],
        amount = '''', category = '''', note_field = ''''\<rparr>"
  by code_simp

text \<open>
  Claim C3.  On an existing table, \<open>deleteExpense i\<close> succeeds for every \<open>i\<close>; the table
  and the list read afterwards are the ones before without the rows of id \<open>i\<close>, so no
  record of that id is listed, every other record is kept as it was and in its place, at
  most one record goes, and when no row has the id the database and the list are
  unchanged.
\<close>

theorem deleteExpense_removes_only_that_id:
  assumes "db s = Some t" "wf_db (db s)"
  shows "\<exists>s'. deleteExpense i s = Inr s' \<and>
           rows_of (db s') = filter (\<lambda>r. exp_id r \<noteq> i) (rows t) \<and>
           expenses s' = filter (\<lambda>r. exp_id r \<noteq> i) (rev (sort_key exp_id (rows t))) \<and>
           select_order_by_id_desc (db s') = Inr (expenses s') \<and>
           (\<forall>r\<in>set (expenses s'). exp_id r \<noteq> i) \<and>
           length (rows t) \<le> Suc (length (expenses s')) \<and>
           (i \<notin> exp_id ` set (rows t) \<longrightarrow>
              db s' = db s \<and> expenses s' = rev (sort_key exp_id (rows t)))"
proof -
  let ?s' = "s\<lparr>db := Some (t\<lparr>rows := filter (\<lambda>r. exp_id r \<noteq> i) (rows t)\<rparr>),
            expenses := filter (\<lambda>r. exp_id r \<noteq> i) (rev (sort_key exp_id (rows t)))\<rparr>"
  have d: "deleteExpense i s = Inr ?s'"
    using assms(1) by (rule deleteExpense_Some)
  have "filter (\<lambda>r. exp_id r \<noteq> i) (rev (sort_key exp_id (rows t))) =
        rev (sort_key exp_id (filter (\<lambda>r. exp_id r \<noteq> i) (rows t)))"
    by (simp add: filter_sort[symmetric] rev_filter)
  then have same_len: "length (filter (\<lambda>r. exp_id r \<noteq> i) (rev (sort_key exp_id (rows t)))) =
        length (filter (\<lambda>r. exp_id r \<noteq> i) (rows t))"
    by simp
  have "length (rows t) \<le> Suc (length (filter (\<lambda>r. exp_id r \<noteq> i) (rows t)))"
    using assms by (intro length_filter_neq) (simp add: wf_db_def)
  then have len: "length (rows t) \<le>
        Suc (length (filter (\<lambda>r. exp_id r \<noteq> i) (rev (sort_key exp_id (rows t)))))"
    using same_len by simp
  have nomatch: "filter (\<lambda>r. exp_id r \<noteq> i) (rows t) = rows t" if "i \<notin> exp_id ` set (rows t)"
    using that by (auto simp: filter_id_conv)
  have nomatch2: "filter (\<lambda>r. exp_id r \<noteq> i) (rev (sort_key exp_id (rows t))) = rev (sort_key exp_id (rows t))"
    if "i \<notin> exp_id ` set (rows t)"
    using that by (auto simp: filter_id_conv)
  show ?thesis
    using d len nomatch nomatch2 assms(1)
    by (intro exI[of _ ?s']) (simp add: rows_of_def filter_sort[symmetric] rev_filter del: length_filter_conv_card)
qed

theorem deleteExpense_removes_only_that_id_witness:
  "wf_db (Some \<lparr>rows = [\<lparr>exp_id = 1, exp_amount = Fin 4, exp_category = Some ''Rent'',
                              exp_note = None\<rparr>,
                            \<lparr>exp_id = 2, exp_amount = Fin 7, exp_category = Some ''Food'',
                              exp_note = Some ''tea''\<rparr>], seq = 2\<rparr>) \<and>
   (\<exists>s'. deleteExpense 1
           \<lparr>db = Some \<lparr>rows = [\<lparr>exp_id = 1, exp_amount = Fin 4, exp_category = Some ''Rent'',
                              exp_note = None\<rparr>,
                            \<lparr>exp_id = 2, exp_amount = Fin 7, exp_category = Some ''Food'',
                              exp_note = Some ''tea''\<rparr>], seq = 2\<rparr>,
              expenses = [], amount = '''', category = '''', note_field = ''''\<rparr> = Inr s' \<and>
         expenses s' = [\<lparr>exp_id = 2, exp_amount = Fin 7, exp_category = Some ''Food'',
                          exp_note = Some ''tea''\<rparr>])"
proof -
  have h: "wf_db (Some \<lparr>rows = [\<lparr>exp_id = 1, exp_amount = Fin 4, exp_category = Some ''Rent'',
                              exp_note = None\<rparr>,
                            \<lparr>exp_id = 2, exp_amount = Fin 7, exp_category = Some ''Food'',
                              exp_note = Some ''tea''\<rparr>], seq = 2\<rparr>)"
    by code_simp
  show ?thesis
    using h deleteExpense_removes_only_that_id
      [of "\<lparr>db = Some \<lparr>rows = [\<lparr>exp_id = 1, exp_amount = Fin 4, exp_category = Some ''Rent'',
                              exp_note = None\<rparr>,
                            \<lparr>exp_id = 2, exp_amount = Fin 7, exp_category = Some ''Food'',
                              exp_note = Some ''tea''\<rparr>], seq = 2\<rparr>,
              expenses = [], amount = '''', category = '''', note_field = ''''\<rparr>"
          "\<lparr>rows = [\<lparr>exp_id = 1, exp_amount = Fin 4, exp_category = Some ''Rent'',
                              exp_note = None\<rparr>,
                            \<lparr>exp_id = 2, exp_amount = Fin 7, exp_category = Some ''Food'',
                              exp_note = Some ''tea''\<rparr>], seq = 2\<rparr>" 1]
    by auto
qed

text \<open>
  Claim C4.  On an existing table, \<open>loadExpenses\<close> succeeds; it lists exactly the rows of
  the table, by strictly descending id, and the empty list for the empty table; and it
  leaves the database and the three inputs as they were.
\<close>

theorem loadExpenses_descending_by_id:
  assumes "db s = Some t" "wf_db (db s)"
  shows "\<exists>s'. loadExpenses s = Inr s' \<and>
           db s' = db s \<and> amount s' = amount s \<and> category s' = category s \<and>
           note_field s' = note_field s \<and>
           sorted_wrt (>) (map exp_id (expenses s')) \<and>
           set (expenses s') = set (rows t) \<and> length (expenses s') = length (rows t) \<and>
           (rows t = [] \<longrightarrow> expenses s' = [])"
proof -
  have "sorted_wrt (>) (map exp_id (rev (sort_key exp_id (rows t))))"
    using assms by (intro desc_strict) (simp add: wf_db_def)
  then show ?thesis
    using assms(1) by (simp add: loadExpenses_Some)
qed

theorem loadExpenses_descending_by_id_witness:
  "wf_db (Some \<lparr>rows = [\<lparr>exp_id = 1, exp_amount = Fin 4, exp_category = Some ''Rent'',
                              exp_note = None\<rparr>,
                            \<lparr>exp_id = 5, exp_amount = Fin 1, exp_category = Some ''Bus'',
                              exp_note = None\<rparr>,
                            \<lparr>exp_id = 2, exp_amount = Fin 7, exp_category = Some ''Food'',
                              exp_note = Some ''tea''\<rparr>], seq = 6\<rparr>) \<and>
   (\<exists>s'. loadExpenses
           \<lparr>db = Some \<lparr>rows = [\<lparr>exp_id = 1, exp_amount = Fin 4, exp_category = Some ''Rent'',
                              exp_note = None\<rparr>,
                            \<lparr>exp_id = 5, exp_amount = Fin 1, exp_category = Some ''Bus'',
                              exp_note = None\<rparr>,
                            \<lparr>exp_id = 2, exp_amount = Fin 7, exp_category = Some ''Food'',
                              exp_note = Some ''tea''\<rparr>], seq = 6\<rparr>,
              expenses = [], amount = ''9'', category = '''', note_field = ''''\<rparr> = Inr s' \<and>
         map exp_id (expenses s') = [5, 2, 1] \<and> sorted_wrt (>) (map exp_id (expenses s')))"
proof -
  have h: "wf_db (Some \<lparr>rows = [\<lparr>exp_id = 1, exp_amount = Fin 4, exp_category = Some ''Rent'',
                              exp_note = None\<rparr>,
                            \<lparr>exp_id = 5, exp_amount = Fin 1, exp_category = Some ''Bus'',
                              exp_note = None\<rparr>,
                            \<lparr>exp_id = 2, exp_amount = Fin 7, exp_category = Some ''Food'',
                              exp_note = Some ''tea''\<rparr>], seq = 6\<rparr>)"
    by code_simp
  show ?thesis
    using h loadExpenses_descending_by_id
      [of "\<lparr>db = Some \<lparr>rows = [\<lparr>exp_id = 1, exp_amount = Fin 4, exp_category = Some ''Rent'',
                              exp_note = None\<rparr>,
                            \<lparr>exp_id = 5, exp_amount = Fin 1, exp_category = Some ''Bus'',
                              exp_note = None\<rparr>,
                            \<lparr>exp_id = 2, exp_amount = Fin 7, exp_category = Some ''Food'',
                              exp_note = Some ''tea''\<rparr>], seq = 6\<rparr>,
              expenses = [], amount = ''9'', category = '''', note_field = ''''\<rparr>"
          "\<lparr>rows = [\<lparr>exp_id = 1, exp_amount = Fin 4, exp_category = Some ''Rent'',
                              exp_note = None\<rparr>,
                            \<lparr>exp_id = 5, exp_amount = Fin 1, exp_category = Some ''Bus'',
                              exp_note = None\<rparr>,
                            \<lparr>exp_id = 2, exp_amount = Fin 7, exp_category = Some ''Food'',
                              exp_note = Some ''tea''\<rparr>], seq = 6\<rparr>"]
    by (auto simp: loadExpenses_def)
qed

text \<open>
  Claim C5, as the code has it.  The label of a record is its category, or \<open>Other\<close> when
  the category is \<open>null\<close> or empty (\<open>category_or_other\<close>).  For records whose labels are
  not names that a plain object inherits from \<open>Object.prototype\<close> and whose amounts are
  not negative, \<open>getCategoryTotals\<close> returns one entry for each label that occurs; the
  entry's amount is the sum, by the addition of numbers and in sequence order, of the
  amounts of the records under the label; the entries whose label is an array index
  come first, by ascending number, and the other entries follow in first-seen order.
  When no label is an array index, that is the first-seen order of the labels.
\<close>

theorem getCategoryTotals_groups_by_category:
  assumes "list_all (\<lambda>r. category_or_other r \<notin> set object_prototype_names) (expenses s)"
    and "list_all (\<lambda>r. nonneg_num (exp_amount r)) (expenses s)"
  shows "map slice_name (getCategoryTotals s) =
           sort_key digits_val
             (filter is_array_index (first_seen (map category_or_other (expenses s)))) @
           filter (\<lambda>k. \<not> is_array_index k) (first_seen (map category_or_other (expenses s))) \<and>
         distinct (map slice_name (getCategoryTotals s)) \<and>
         set (map slice_name (getCategoryTotals s)) = set (map category_or_other (expenses s)) \<and>
         (\<forall>sl\<in>set (getCategoryTotals s).
            slice_amount sl =
              Num (foldl jsadd (Fin 0) (group_amounts (slice_name sl) (expenses s)))) \<and>
         (list_all (\<lambda>k. \<not> is_array_index k) (map category_or_other (expenses s)) \<longrightarrow>
            map slice_name (getCategoryTotals s) = first_seen (map category_or_other (expenses s))) \<and>
         (\<forall>r\<in>set (expenses s).
            category_or_other r =
              (case exp_category r of None \<Rightarrow> ''Other'' | Some c \<Rightarrow> if c = [] then ''Other'' else c))"
proof -
  have "\<forall>r\<in>set (expenses s).
          category_or_other r =
            (case exp_category r of None \<Rightarrow> ''Other'' | Some c \<Rightarrow> if c = [] then ''Other'' else c)"
    by (simp add: category_or_other_def)
  then show ?thesis
    using category_totals_char[OF assms] by blast
qed

theorem getCategoryTotals_groups_by_category_witness:
  "list_all (\<lambda>r. category_or_other r \<notin> set object_prototype_names)
     [\<lparr>exp_id = 4, exp_amount = Fin 10, exp_category = Some ''Food'', exp_note = None\<rparr>,
      \<lparr>exp_id = 3, exp_amount = Fin 5, exp_category = Some ''7'', exp_note = None\<rparr>,
      \<lparr>exp_id = 2, exp_amount = Fin (5 / 2), exp_category = Some ''Food'', exp_note = None\<rparr>,
      \<lparr>exp_id = 1, exp_amount = Fin 1, exp_category = None, exp_note = None\<rparr>] \<and>
   list_all (\<lambda>r. nonneg_num (exp_amount r))
     [\<lparr>exp_id = 4, exp_amount = Fin 10, exp_category = Some ''Food'', exp_note = None\<rparr>,
      \<lparr>exp_id = 3, exp_amount = Fin 5, exp_category = Some ''7'', exp_note = None\<rparr>,
      \<lparr>exp_id = 2, exp_amount = Fin (5 / 2), exp_category = Some ''Food'', exp_note = None\<rparr>,
      \<lparr>exp_id = 1, exp_amount = Fin 1, exp_category = None, exp_note = None\<rparr>] \<and>
   map slice_name
     (getCategoryTotals
        \<lparr>db = None,
         expenses =
           [\<lparr>exp_id = 4, exp_amount = Fin 10, exp_category = Some ''Food'', exp_note = None\<rparr>,
            \<lparr>exp_id = 3, exp_amount = Fin 5, exp_category = Some ''7'', exp_note = None\<rparr>,
            \<lparr>exp_id = 2, exp_amount = Fin (5 / 2), exp_category = Some ''Food'', exp_note = None\<rparr>,
            \<lparr>exp_id = 1, exp_amount = Fin 1, exp_category = None, exp_note = None\<rparr>],
         amount = '''', category = '''', note_field = ''''\<rparr>) = [''7'', ''Food'', ''Other'']"
proof -
  let ?es = "[\<lparr>exp_id = 4, exp_amount = Fin 10, exp_category = Some ''Food'', exp_note = None\<rparr>,
      \<lparr>exp_id = 3, exp_amount = Fin 5, exp_category = Some ''7'', exp_note = None\<rparr>,
      \<lparr>exp_id = 2, exp_amount = Fin (5 / 2), exp_category = Some ''Food'', exp_note = None\<rparr>,
      \<lparr>exp_id = 1, exp_amount = Fin 1, exp_category = None, exp_note = None\<rparr>]"
  let ?s = "\<lparr>db = None, expenses = ?es, amount = '''', category = '''', note_field = ''''\<rparr>"
  have h1: "list_all (\<lambda>r. category_or_other r \<notin> set object_prototype_names) ?es"
    by code_simp
  have h2: "list_all (\<lambda>r. nonneg_num (exp_amount r)) ?es"
    by code_simp
  have v: "sort_key digits_val (filter is_array_index (first_seen (map category_or_other ?es))) @
           filter (\<lambda>k. \<not> is_array_index k) (first_seen (map category_or_other ?es)) =
           [''7'', ''Food'', ''Other'']"
    by code_simp
  have "map slice_name (getCategoryTotals ?s) =
           sort_key digits_val (filter is_array_index (first_seen (map category_or_other (expenses ?s)))) @
           filter (\<lambda>k. \<not> is_array_index k) (first_seen (map category_or_other (expenses ?s)))"
    using getCategoryTotals_groups_by_category[of ?s] h1 h2 by simp
  then have "map slice_name (getCategoryTotals ?s) = [''7'', ''Food'', ''Other'']"
    using v by simp
  then show ?thesis
    using h1 h2 by blast
qed

text \<open>
  The order is not first-seen in general: \<open>Object.entries\<close> puts the label \<open>7\<close> before
  the label \<open>Food\<close> that was seen first.
\<close>

theorem getCategoryTotals_index_order_counterexample:
  "map slice_name
     (getCategoryTotals
        \<lparr>db = None,
         expenses = [\<lparr>exp_id = 2, exp_amount = Fin 10, exp_category = Some ''Food'', exp_note = None\<rparr>,
                     \<lparr>exp_id = 1, exp_amount = Fin 5, exp_category = Some ''7'', exp_note = None\<rparr>],
         amount = '''', category = '''', note_field = ''''\<rparr>) = [''7'', ''Food''] \<and>
   first_seen (map category_or_other
        [\<lparr>exp_id = 2, exp_amount = Fin 10, exp_category = Some ''Food'', exp_note = None\<rparr>,
         \<lparr>exp_id = 1, exp_amount = Fin 5, exp_category = Some ''7'', exp_note = None\<rparr>]) =
     [''Food'', ''7''] \<and>
   [''7'', ''Food''] \<noteq> [''Food'', ''7'']"
  by code_simp

text \<open>
  Labels that \<open>totals\<close> inherits are not summed: \<open>totals[category]\<close> is then truthy from
  the start, so the total is never set to \<open>0\<close>; \<open>__proto__\<close> gets no entry at all, and
  under \<open>constructor\<close> the amounts are appended to text.
\<close>

lemma getCategoryTotals_inherited_names_example:
  "map (\<lambda>sl. (slice_name sl, slice_amount sl))
     (getCategoryTotals
        \<lparr>db = None,
         expenses = [\<lparr>exp_id = 3, exp_amount = Fin 10, exp_category = Some ''__proto__'', exp_note = None\<rparr>,
                     \<lparr>exp_id = 2, exp_amount = Fin 5, exp_category = Some ''constructor'', exp_note = None\<rparr>,
                     \<lparr>exp_id = 1, exp_amount = Fin 3, exp_category = Some ''constructor'', exp_note = None\<rparr>],
         amount = '''', category = '''', note_field = ''''\<rparr>) = [(''constructor'', Str)]"
  by code_simp

text \<open>
  Claim C6, as the code has it.  For records whose labels are not inherited names, whose
  amounts are not negative, and for which the total of each label is computed without
  rounding (adding the amounts under the label one after the other gives their exact
  sum), every total is a finite number and the totals add up to the sum of the amounts.
  When, moreover, adding the totals one after the other and adding the amounts one
  after the other do not round either, these two sums agree as well.
\<close>

theorem getCategoryTotals_sum_equals_total:
  assumes "list_all (\<lambda>r. category_or_other r \<notin> set object_prototype_names) (expenses s)"
    and "list_all (\<lambda>r. nonneg_num (exp_amount r)) (expenses s)"
    and "list_all (group_total_exact (expenses s)) (map category_or_other (expenses s))"
  shows "list_all (\<lambda>sl. \<exists>q. slice_amount sl = Num (Fin q)) (getCategoryTotals s) \<and>
         sum_list (map (\<lambda>sl. finite_value (slice_amount sl)) (getCategoryTotals s)) =
           sum_list (map (\<lambda>r. num_value (exp_amount r)) (expenses s)) \<and>
         (foldl jsadd (Fin 0) (map (\<lambda>sl. number_of (slice_amount sl)) (getCategoryTotals s)) =
            Fin (sum_list (map (\<lambda>sl. finite_value (slice_amount sl)) (getCategoryTotals s))) \<and>
          foldl jsadd (Fin 0) (map exp_amount (expenses s)) =
            Fin (sum_list (map (\<lambda>r. num_value (exp_amount r)) (expenses s))) \<longrightarrow>
          foldl jsadd (Fin 0) (map (\<lambda>sl. number_of (slice_amount sl)) (getCategoryTotals s)) =
            foldl jsadd (Fin 0) (map exp_amount (expenses s)))"
proof -
  note c = category_totals_sum_char[OF assms]
  have 1: "list_all (\<lambda>sl. \<exists>q. slice_amount sl = Num (Fin q)) (getCategoryTotals s)"
    using c by (auto simp: list_all_iff)
  have 2: "sum_list (map (\<lambda>sl. finite_value (slice_amount sl)) (getCategoryTotals s)) =
           sum_list (map (\<lambda>r. num_value (exp_amount r)) (expenses s))"
    using c by blast
  show ?thesis
    using 1 2 by simp
qed

theorem getCategoryTotals_sum_equals_total_witness:
  "list_all (\<lambda>r. category_or_other r \<notin> set object_prototype_names)
     [\<lparr>exp_id = 3, exp_amount = Fin (25 / 2), exp_category = Some ''Food'', exp_note = None\<rparr>,
      \<lparr>exp_id = 2, exp_amount = Fin (29 / 4), exp_category = Some ''Bus'', exp_note = None\<rparr>,
      \<lparr>exp_id = 1, exp_amount = Fin (1 / 4), exp_category = Some ''Food'', exp_note = None\<rparr>] \<and>
   list_all (\<lambda>r. nonneg_num (exp_amount r))
     [\<lparr>exp_id = 3, exp_amount = Fin (25 / 2), exp_category = Some ''Food'', exp_note = None\<rparr>,
      \<lparr>exp_id = 2, exp_amount = Fin (29 / 4), exp_category = Some ''Bus'', exp_note = None\<rparr>,
      \<lparr>exp_id = 1, exp_amount = Fin (1 / 4), exp_category = Some ''Food'', exp_note = None\<rparr>] \<and>
   list_all
     (group_total_exact
        [\<lparr>exp_id = 3, exp_amount = Fin (25 / 2), exp_category = Some ''Food'', exp_note = None\<rparr>,
         \<lparr>exp_id = 2, exp_amount = Fin (29 / 4), exp_category = Some ''Bus'', exp_note = None\<rparr>,
         \<lparr>exp_id = 1, exp_amount = Fin (1 / 4), exp_category = Some ''Food'', exp_note = None\<rparr>])
     [''Food'', ''Bus'', ''Food''] \<and>
   sum_list (map (\<lambda>sl. finite_value (slice_amount sl))
     (getCategoryTotals
        \<lparr>db = None,
         expenses =
           [\<lparr>exp_id = 3, exp_amount = Fin (25 / 2), exp_category = Some ''Food'', exp_note = None\<rparr>,
            \<lparr>exp_id = 2, exp_amount = Fin (29 / 4), exp_category = Some ''Bus'', exp_note = None\<rparr>,
            \<lparr>exp_id = 1, exp_amount = Fin (1 / 4), exp_category = Some ''Food'', exp_note = None\<rparr>],
         amount = '''', category = '''', note_field = ''''\<rparr>)) = 20"
proof -
  let ?es = "[\<lparr>exp_id = 3, exp_amount = Fin (25 / 2), exp_category = Some ''Food'', exp_note = None\<rparr>,
      \<lparr>exp_id = 2, exp_amount = Fin (29 / 4), exp_category = Some ''Bus'', exp_note = None\<rparr>,
      \<lparr>exp_id = 1, exp_amount = Fin (1 / 4), exp_category = Some ''Food'', exp_note = None\<rparr>]"
  let ?s = "\<lparr>db = None, expenses = ?es, amount = '''', category = '''', note_field = ''''\<rparr>"
  have h1: "list_all (\<lambda>r. category_or_other r \<notin> set object_prototype_names) ?es"
    by code_simp
  have h2: "list_all (\<lambda>r. nonneg_num (exp_amount r)) ?es"
    by code_simp
  have h3: "list_all (group_total_exact ?es) [''Food'', ''Bus'', ''Food'']"
    by code_simp
  have l: "map category_or_other ?es = [''Food'', ''Bus'', ''Food'']"
    by code_simp
  have v: "sum_list (map (\<lambda>r. num_value (exp_amount r)) ?es) = 20"
    by simp
  have "sum_list (map (\<lambda>sl. finite_value (slice_amount sl)) (getCategoryTotals ?s)) =
           sum_list (map (\<lambda>r. num_value (exp_amount r)) (expenses ?s))"
    using getCategoryTotals_sum_equals_total[of ?s] h1 h2 h3 l by simp
  then have "sum_list (map (\<lambda>sl. finite_value (slice_amount sl)) (getCategoryTotals ?s)) = 20"
    using v by simp
  then show ?thesis
    using h1 h2 h3 by blast
qed

text \<open>
  Where a total rounds, the sums differ: of the amounts \<open>10^16, 1, 1, 1\<close>, grouped as
  \<open>10^16, 1\<close> and \<open>1, 1\<close>, the totals are \<open>10^16\<close> (the first group's sum is rounded)
  and \<open>2\<close>.  They add up to \<open>10^16 + 2\<close>; the amounts add up to \<open>10^16 + 3\<close>, and to
  \<open>10^16\<close> when added one after the other.
\<close>

theorem getCategoryTotals_rounding_counterexample:
  "map slice_amount
     (getCategoryTotals
        \<lparr>db = None,
         expenses =
           [\<lparr>exp_id = 4, exp_amount = Fin 10000000000000000, exp_category = Some ''Rent'', exp_note = None\<rparr>,
            \<lparr>exp_id = 3, exp_amount = Fin 1, exp_category = Some ''Rent'', exp_note = None\<rparr>,
            \<lparr>exp_id = 2, exp_amount = Fin 1, exp_category = Some ''Food'', exp_note = None\<rparr>,
            \<lparr>exp_id = 1, exp_amount = Fin 1, exp_category = Some ''Food'', exp_note = None\<rparr>],
         amount = '''', category = '''', note_field = ''''\<rparr>) =
     [Num (Fin 10000000000000000), Num (Fin 2)] \<and>
   sum_list (map finite_value [Num (Fin 10000000000000000), Num (Fin 2)]) = 10000000000000002 \<and>
   sum_list (map num_value [Fin 10000000000000000, Fin 1, Fin 1, Fin 1]) = 10000000000000003 \<and>
   foldl jsadd (Fin 0) (map number_of [Num (Fin 10000000000000000), Num (Fin 2)]) =
     Fin 10000000000000002 \<and>
   foldl jsadd (Fin 0) [Fin 10000000000000000, Fin 1, Fin 1, Fin 1] = Fin 10000000000000000 \<and>
   \<not> group_total_exact
       [\<lparr>exp_id = 4, exp_amount = Fin 10000000000000000, exp_category = Some ''Rent'', exp_note = None\<rparr>,
        \<lparr>exp_id = 3, exp_amount = Fin 1, exp_category = Some ''Rent'', exp_note = None\<rparr>,
        \<lparr>exp_id = 2, exp_amount = Fin 1, exp_category = Some ''Food'', exp_note = None\<rparr>,
        \<lparr>exp_id = 1, exp_amount = Fin 1, exp_category = Some ''Food'', exp_note = None\<rparr>]
       ''Rent''"
  by code_simp

text \<open>
  Whole amounts, not negative, with a sum of at most \<open>2^53\<close> are a case in which nothing
  rounds: the total of each label is exact, and so are the sum of the totals and the sum
  of the amounts when added one after the other.
\<close>

lemma getCategoryTotals_sum_whole_amounts:
  assumes "list_all (\<lambda>r. category_or_other r \<notin> set object_prototype_names) (expenses s)"
    and "list_all (\<lambda>r. whole_nonneg (exp_amount r)) (expenses s)"
    and "sum_list (map (\<lambda>r. num_value (exp_amount r)) (expenses s)) \<le> 2 ^ 53"
  shows "list_all (group_total_exact (expenses s)) (map category_or_other (expenses s)) \<and>
         sum_list (map (\<lambda>sl. finite_value (slice_amount sl)) (getCategoryTotals s)) =
           sum_list (map (\<lambda>r. num_value (exp_amount r)) (expenses s)) \<and>
         foldl jsadd (Fin 0) (map (\<lambda>sl. number_of (slice_amount sl)) (getCategoryTotals s)) =
           Fin (sum_list (map (\<lambda>r. num_value (exp_amount r)) (expenses s))) \<and>
         foldl jsadd (Fin 0) (map exp_amount (expenses s)) =
           Fin (sum_list (map (\<lambda>r. num_value (exp_amount r)) (expenses s)))"
proof -
  let ?es = "expenses s"
  let ?out = "getCategoryTotals s"
  let ?total = "sum_list (map (\<lambda>r. num_value (exp_amount r)) ?es)"
  have nn: "list_all (\<lambda>r. nonneg_num (exp_amount r)) ?es"
    using assms(2) by (simp add: list_all_iff whole_nonneg_nonneg)
  have ex: "list_all (group_total_exact ?es) (map category_or_other ?es)"
    using whole_amounts_group_total_exact[OF assms(2,3)] by (simp add: list_all_iff)
  note c = category_totals_sum_char[OF assms(1) nn ex]
  have amt: "slice_amount sl =
      Num (Fin (sum_list (map num_value (group_amounts (slice_name sl) ?es))))"
    if "sl \<in> set ?out" for sl
    using c that by blast
  have 2: "sum_list (map (\<lambda>sl. finite_value (slice_amount sl)) ?out) = ?total"
    using c by blast
  let ?ts = "map (\<lambda>sl. number_of (slice_amount sl)) ?out"
  have tw: "list_all whole_nonneg ?ts"
    using amt group_total_whole[OF assms(2,3)] by (simp add: list_all_iff)
  have "sum_list (map num_value ?ts) = sum_list (map (\<lambda>sl. finite_value (slice_amount sl)) ?out)"
    by (simp add: comp_def finite_value_def)
  then have tsum: "sum_list (map num_value ?ts) = ?total"
    using 2 by simp
  have 3: "foldl jsadd (Fin 0) ?ts = Fin ?total"
    using foldl_jsadd_whole[OF tw] tsum assms(3) by simp
  have aw: "list_all whole_nonneg (map exp_amount ?es)"
    using assms(2) by (simp add: list_all_iff)
  have asum: "sum_list (map num_value (map exp_amount ?es)) = ?total"
    by (simp add: comp_def)
  have 4: "foldl jsadd (Fin 0) (map exp_amount ?es) = Fin ?total"
    using foldl_jsadd_whole[OF aw] asum assms(3) by simp
  show ?thesis
    using ex 2 3 4 by blast
qed

text \<open>
  Claim C7.  After a successful \<open>addExpense\<close> the row added last holds the trimmed
  category, and the trimmed note, or \<open>null\<close> when the trimmed note is empty; its note is
  not the empty string.  If no note in the table was the empty string before, none is
  afterwards, nor after any further events.
\<close>

theorem addExpense_stores_trimmed_category_and_note:
  assumes "\<not> isNaN (parseFloat (amount s))" "\<not> le_zero (parseFloat (amount s))"
    and "trim (category s) \<noteq> []" "db s = Some t" "last_rowid t < max_rowid"
    and "notes_ok (db s)"
  shows "\<exists>s' new. addExpense s = Inr s' \<and> rows_of (db s') = rows t @ [new] \<and>
           exp_category new = Some (trim (category s)) \<and>
           exp_note new = (if trim (note_field s) = [] then None else Some (trim (note_field s))) \<and>
           exp_note new \<noteq> Some [] \<and>
           notes_ok (db s') \<and>
           (\<forall>acts s''. run acts s' = Inr s'' \<longrightarrow> notes_ok (db s''))"
proof -
  let ?new = "\<lparr>exp_id = last_rowid t + 1, exp_amount = parseFloat (amount s),
                exp_category = Some (trim (category s)),
                exp_note = (if trim (note_field s) = [] then None else Some (trim (note_field s)))\<rparr>"
  obtain s' where s': "addExpense s = Inr s'" "rows_of (db s') = rows t @ [?new]"
    using assms addExpense_accepted[of s t] by (simp add: rows_of_def)
  have ok: "notes_ok (db s')"
    using assms(4,6) s'(2) by (simp add: notes_ok_def rows_of_def)
  have "\<forall>acts s''. run acts s' = Inr s'' \<longrightarrow> notes_ok (db s'')"
    using ok run_notes_ok by blast
  then show ?thesis
    using s' ok by (intro exI[of _ s'] exI[of _ ?new]) simp
qed

theorem addExpense_stores_trimmed_category_and_note_witness:
  "\<not> isNaN (parseFloat ''3'') \<and> \<not> le_zero (parseFloat ''3'') \<and> trim ''  Books'' \<noteq> [] \<and>
   last_rowid \<lparr>rows = [], seq = 0\<rparr> < max_rowid \<and> notes_ok (Some \<lparr>rows = [], seq = 0\<rparr>) \<and>
   (\<exists>s' new. addExpense \<lparr>db = Some \<lparr>rows = [], seq = 0\<rparr>, expenses = [],
                          amount = ''3'', category = ''  Books'', note_field = ''   ''\<rparr> = Inr s' \<and>
         rows_of (db s') = [new] \<and> exp_category new = Some ''Books'' \<and> exp_note new = None)"
proof -
  have h: "\<not> isNaN (parseFloat ''3'')" "\<not> le_zero (parseFloat ''3'')"
    "trim ''  Books'' \<noteq> []" "last_rowid \<lparr>rows = [], seq = 0\<rparr> < max_rowid"
    "notes_ok (Some \<lparr>rows = [], seq = 0\<rparr>)"
    by code_simp+
  have t: "trim ''  Books'' = ''Books''" "trim ''   '' = []"
    by code_simp+
  show ?thesis
    using h t addExpense_stores_trimmed_category_and_note
      [of "\<lparr>db = Some \<lparr>rows = [], seq = 0\<rparr>, expenses = [],
            amount = ''3'', category = ''  Books'', note_field = ''   ''\<rparr>"
          "\<lparr>rows = [], seq = 0\<rparr>"]
    by auto
qed

text \<open>
  Claim C8.  The effect's \<open>setup\<close> always succeeds.  It creates the empty table when
  there is none and leaves an existing table as it is, rows and sequence entry; the
  list it reads is the list of those rows.  Running it again changes nothing, and any
  number of runs in a row gives the state that one run gives.
\<close>

theorem setup_effect_idempotent:
  "\<exists>s1. setup_effect s = Inr s1 \<and>
         db s1 = (case db s of None \<Rightarrow> Some \<lparr>rows = [], seq = 0\<rparr> | Some t \<Rightarrow> Some t) \<and>
         rows_of (db s1) = rows_of (db s) \<and>
         expenses s1 = rev (sort_key exp_id (rows_of (db s))) \<and>
         setup_effect s1 = Inr s1 \<and>
         (\<forall>n. run (replicate (Suc n) Mount) s = Inr s1)"
proof -
  let ?s1 = "s\<lparr>db := create_table_if_not_exists (db s),
            expenses := rev (sort_key exp_id (rows_of (db s)))\<rparr>"
  have 1: "setup_effect s = Inr ?s1"
    by (rule setup_effect_eq)
  have 2: "setup_effect ?s1 = Inr ?s1"
    by (cases "db s") (simp_all add: setup_effect_eq rows_of_def)
  have 3: "rows_of (db ?s1) = rows_of (db s)"
    by (cases "db s") (simp_all add: rows_of_def)
  have 4: "db ?s1 = (case db s of None \<Rightarrow> Some \<lparr>rows = [], seq = 0\<rparr> | Some t \<Rightarrow> Some t)"
    by (cases "db s") simp_all
  have 5: "run (replicate (Suc n) Mount) s = Inr ?s1" for n
    unfolding run_replicate_Mount by (rule 1)
  show ?thesis
    using 1 2 3 4 5 by (intro exI[of _ ?s1]) simp
qed

text \<open>
  Claim C9.  When \<open>addExpense\<close> rejects its input (the amount parses to \<open>NaN\<close> or to a
  number \<open>\<le> 0\<close>, or the category is empty after trimming), it returns with the three
  inputs as they were.
\<close>

theorem addExpense_rejected_keeps_form:
  assumes "isNaN (parseFloat (amount s)) \<or> le_zero (parseFloat (amount s)) \<or> trim (category s) = []"
  shows "\<exists>s'. addExpense s = Inr s' \<and>
           amount s' = amount s \<and> category s' = category s \<and> note_field s' = note_field s"
  using assms by (auto simp: addExpense_def Let_def)

theorem addExpense_rejected_keeps_form_witness:
  "le_zero (parseFloat ''-5'') \<and>
   (\<exists>s'. addExpense \<lparr>db = Some \<lparr>rows = [], seq = 0\<rparr>, expenses = [],
                          amount = ''-5'', category = ''Food'', note_field = ''snack''\<rparr> = Inr s' \<and>
         amount s' = ''-5'' \<and> category s' = ''Food'' \<and> note_field s' = ''snack'')"
proof -
  have h: "le_zero (parseFloat ''-5'')"
    by code_simp
  show ?thesis
    using h addExpense_rejected_keeps_form
      [of "\<lparr>db = Some \<lparr>rows = [], seq = 0\<rparr>, expenses = [],
            amount = ''-5'', category = ''Food'', note_field = ''snack''\<rparr>"]
    by simp
qed

text \<open>
  Claim C10.  When \<open>addExpense\<close> accepts its input and the insert succeeds, the list is
  reloaded from a state in which the three inputs are already the empty string and the
  list is still the old one; the inputs are empty in the state it returns.
\<close>

theorem addExpense_accepted_clears_form:
  assumes "\<not> isNaN (parseFloat (amount s))" "\<not> le_zero (parseFloat (amount s))"
    and "trim (category s) \<noteq> []" "db s = Some t" "last_rowid t < max_rowid"
  shows "\<exists>d mid s'.
           insert_expense (parseFloat (amount s)) (trim (category s))
             (if trim (note_field s) = [] then None else Some (trim (note_field s))) (db s) = Inr d \<and>
           mid = s\<lparr>db := d, amount := [], category := [], note_field := []\<rparr> \<and>
           expenses mid = expenses s \<and>
           loadExpenses mid = Inr s' \<and> addExpense s = Inr s' \<and>
           amount s' = [] \<and> category s' = [] \<and> note_field s' = []"
  using assms by (simp add: addExpense_def Let_def loadExpenses_def)

theorem addExpense_accepted_clears_form_witness:
  "\<not> isNaN (parseFloat ''12.50'') \<and> \<not> le_zero (parseFloat ''12.50'') \<and> trim '' Food '' \<noteq> [] \<and>
   last_rowid \<lparr>rows = [], seq = 0\<rparr> < max_rowid \<and>
   (\<exists>s'. addExpense \<lparr>db = Some \<lparr>rows = [], seq = 0\<rparr>, expenses = [],
                          amount = ''12.50'', category = '' Food '', note_field = ''lunch''\<rparr> = Inr s' \<and>
         amount s' = [] \<and> category s' = [] \<and> note_field s' = [])"
proof -
  have h: "\<not> isNaN (parseFloat ''12.50'')" "\<not> le_zero (parseFloat ''12.50'')"
    "trim '' Food '' \<noteq> []" "last_rowid \<lparr>rows = [], seq = 0\<rparr> < max_rowid"
    by code_simp+
  show ?thesis
    using h addExpense_accepted_clears_form
      [of "\<lparr>db = Some \<lparr>rows = [], seq = 0\<rparr>, expenses = [],
            amount = ''12.50'', category = '' Food '', note_field = ''lunch''\<rparr>"
          "\<lparr>rows = [], seq = 0\<rparr>"]
    by auto
qed

end
